theory Spec2Isabelle
  imports Complex_Main "HOL-Library.Word"
begin

unbundle bit_operations_syntax

section \<open>IEEE-754 binary32, bit for bit\<close>

text \<open>
  The kernels of the repository work on C \<open>float\<close> values and on their 32-bit patterns at
  the same time (\<open>union { float f; uint32_t i; }\<close>), so a \<open>float\<close> is modelled as its
  bit pattern: bit 31 is the sign, bits 30..23 the biased exponent, bits 22..0 the
  fraction. Arithmetic is the round-to-nearest-even arithmetic of the SSE/AVX units the
  sources are written for: every operation is computed exactly on integers
  (significand times a power of two) and rounded once. An operation on a NaN returns
  the first NaN operand made quiet; an invalid operation returns the default NaN
  \<open>0xFFC00000\<close>. Expressions are evaluated as the source writes them, one rounding per
  operator.
\<close>

type_synonym f32 = "32 word"

definition f32_sign :: "f32 \<Rightarrow> bool" where
  "f32_sign w = (2 ^ 31 \<le> unat w)"

definition f32_expo :: "f32 \<Rightarrow> nat" where
  "f32_expo w = unat w div 2 ^ 23 mod 256"

definition f32_frac :: "f32 \<Rightarrow> nat" where
  "f32_frac w = unat w mod 2 ^ 23"

definition is_nan :: "f32 \<Rightarrow> bool" where
  "is_nan w = (f32_expo w = 255 \<and> f32_frac w \<noteq> 0)"

definition is_inf :: "f32 \<Rightarrow> bool" where
  "is_inf w = (f32_expo w = 255 \<and> f32_frac w = 0)"

definition is_zero :: "f32 \<Rightarrow> bool" where
  "is_zero w = (f32_expo w = 0 \<and> f32_frac w = 0)"

definition is_finite :: "f32 \<Rightarrow> bool" where
  "is_finite w = (f32_expo w < 255)"

text \<open>A finite pattern denotes \<open>\<plusminus> f32_mant * 2 ^ f32_scale\<close>.\<close>

definition f32_mant :: "f32 \<Rightarrow> nat" where
  "f32_mant w = (if f32_expo w = 0 then f32_frac w else 2 ^ 23 + f32_frac w)"

definition f32_scale :: "f32 \<Rightarrow> int" where
  "f32_scale w = (if f32_expo w = 0 then - 149 else int (f32_expo w) - 150)"

definition f32_sval :: "f32 \<Rightarrow> int" where
  "f32_sval w = (if f32_sign w then - int (f32_mant w) else int (f32_mant w))"

definition f32_val :: "f32 \<Rightarrow> real" where
  "f32_val w = real_of_int (f32_sval w) * 2 powr real_of_int (f32_scale w)"

definition f32_pack :: "bool \<Rightarrow> nat \<Rightarrow> f32" where
  "f32_pack s b = of_nat b + (if s then 0x80000000 else 0)"

definition quiet :: "f32 \<Rightarrow> f32" where
  "quiet w = w OR 0x00400000"

definition default_nan :: f32 where
  "default_nan = 0xFFC00000"

definition f32_neg :: "f32 \<Rightarrow> f32" where
  "f32_neg a = a XOR 0x80000000"

subsection \<open>Rounding to nearest, ties to even\<close>

fun bitlen :: "nat \<Rightarrow> nat" where
  "bitlen n = (if n = 0 then 0 else Suc (bitlen (n div 2)))"

declare bitlen.simps [simp del]

definition rne_aux :: "nat \<Rightarrow> nat \<Rightarrow> nat \<Rightarrow> nat" where
  "rne_aux q r h = (if h < r \<or> (r = h \<and> odd q) then q + 1 else q)"

text \<open>\<open>rne m k\<close>: \<open>m / 2 ^ k\<close> rounded to the nearest integer, a tie to the even one.\<close>

definition rne :: "nat \<Rightarrow> nat \<Rightarrow> nat" where
  "rne m k = rne_aux (m div 2 ^ k) (m mod 2 ^ k) (2 ^ k div 2)"

text \<open>
  The biased exponent and the fraction are packed as one number, so that a significand
  rounded up to \<open>2 ^ 24\<close> carries into the exponent; everything from \<open>255 * 2 ^ 23\<close> on
  is an overflow and becomes infinity.
\<close>

definition f32_finish :: "bool \<Rightarrow> nat \<Rightarrow> f32" where
  "f32_finish s b = f32_pack s (if 255 * 2 ^ 23 \<le> b then 255 * 2 ^ 23 else b)"

definition f32_round_q :: "bool \<Rightarrow> nat \<Rightarrow> int \<Rightarrow> int \<Rightarrow> f32" where
  "f32_round_q s m e q =
     f32_finish s (nat (q + 149) * 2 ^ 23 +
       (if q \<le> e then m * 2 ^ nat (e - q) else rne m (nat (q - e))))"

text \<open>
  \<open>f32_round s m e\<close> is the binary32 nearest to \<open>\<plusminus> m * 2 ^ e\<close>; \<open>q\<close> is the exponent
  of the unit in the last place of the result (\<open>- 149\<close> for subnormals).
\<close>

definition f32_round :: "bool \<Rightarrow> nat \<Rightarrow> int \<Rightarrow> f32" where
  "f32_round s m e =
     (if m = 0 then f32_pack s 0
      else f32_round_q s m e (max (e + int (bitlen m) - 24) (- 149)))"

subsection \<open>The operators \<open>*\<close>, \<open>+\<close>, \<open>-\<close>, \<open>/\<close>, \<open>sqrtf\<close> and \<open>fma\<close>\<close>

definition f32_mul :: "f32 \<Rightarrow> f32 \<Rightarrow> f32" where
  "f32_mul a b =
     (if is_nan a then quiet a else if is_nan b then quiet b
      else if (is_inf a \<and> is_zero b) \<or> (is_zero a \<and> is_inf b) then default_nan
      else if is_inf a \<or> is_inf b then f32_pack (f32_sign a \<noteq> f32_sign b) (255 * 2 ^ 23)
      else f32_round (f32_sign a \<noteq> f32_sign b) (f32_mant a * f32_mant b)
             (f32_scale a + f32_scale b))"

definition f32_sum :: "bool \<Rightarrow> int \<Rightarrow> int \<Rightarrow> f32" where
  "f32_sum s0 t e = (if t = 0 then f32_pack s0 0 else f32_round (t < 0) (nat \<bar>t\<bar>) e)"

definition f32_add_fin :: "f32 \<Rightarrow> f32 \<Rightarrow> int \<Rightarrow> f32" where
  "f32_add_fin a b e =
     f32_sum (f32_sign a \<and> f32_sign b)
       (f32_sval a * 2 ^ nat (f32_scale a - e) + f32_sval b * 2 ^ nat (f32_scale b - e)) e"

definition f32_add :: "f32 \<Rightarrow> f32 \<Rightarrow> f32" where
  "f32_add a b =
     (if is_nan a then quiet a else if is_nan b then quiet b
      else if is_inf a then (if is_inf b \<and> f32_sign a \<noteq> f32_sign b then default_nan else a)
      else if is_inf b then b
      else f32_add_fin a b (min (f32_scale a) (f32_scale b)))"

definition f32_sub :: "f32 \<Rightarrow> f32 \<Rightarrow> f32" where
  "f32_sub a b =
     (if is_nan a then quiet a else if is_nan b then quiet b else f32_add a (f32_neg b))"

text \<open>\<open>f32_quot s p q e\<close>: the binary32 nearest to \<open>\<plusminus> (p / q) * 2 ^ e\<close>, for
  \<open>0 < q\<close> and \<open>p / q\<close> at least \<open>2 ^ - 24\<close>; the remainder is kept as a sticky bit.\<close>

definition f32_quot :: "bool \<Rightarrow> nat \<Rightarrow> nat \<Rightarrow> int \<Rightarrow> f32" where
  "f32_quot s p q e =
     f32_round s (2 * (p * 2 ^ 50 div q) + (if p * 2 ^ 50 mod q = 0 then 0 else 1)) (e - 51)"

definition f32_div :: "f32 \<Rightarrow> f32 \<Rightarrow> f32" where
  "f32_div a b =
     (if is_nan a then quiet a else if is_nan b then quiet b
      else if is_inf a then
        (if is_inf b then default_nan else f32_pack (f32_sign a \<noteq> f32_sign b) (255 * 2 ^ 23))
      else if is_inf b then f32_pack (f32_sign a \<noteq> f32_sign b) 0
      else if is_zero b then
        (if is_zero a then default_nan else f32_pack (f32_sign a \<noteq> f32_sign b) (255 * 2 ^ 23))
      else if is_zero a then f32_pack (f32_sign a \<noteq> f32_sign b) 0
      else f32_quot (f32_sign a \<noteq> f32_sign b) (f32_mant a) (f32_mant b)
             (f32_scale a - f32_scale b))"

fun isqrt_aux :: "nat \<Rightarrow> nat \<Rightarrow> nat \<Rightarrow> nat" where
  "isqrt_aux n 0 r = r"
| "isqrt_aux n (Suc k) r = isqrt_aux n k (if (r + 2 ^ k) * (r + 2 ^ k) \<le> n then r + 2 ^ k else r)"

text \<open>The integer square root of a number below \<open>2 ^ 80\<close>, bit by bit.\<close>

definition isqrt :: "nat \<Rightarrow> nat" where
  "isqrt n = isqrt_aux n 40 0"

definition f32_sqrt_aux :: "nat \<Rightarrow> nat \<Rightarrow> int \<Rightarrow> f32" where
  "f32_sqrt_aux n r e = f32_round False (2 * r + (if r * r = n then 0 else 1)) e"

definition f32_sqrt_fin :: "nat \<Rightarrow> int \<Rightarrow> nat \<Rightarrow> f32" where
  "f32_sqrt_fin m e k = f32_sqrt_aux (m * 2 ^ k) (isqrt (m * 2 ^ k)) ((e - int k) div 2 - 1)"

definition f32_sqrt :: "f32 \<Rightarrow> f32" where
  "f32_sqrt a =
     (if is_nan a then quiet a else if is_zero a then a
      else if f32_sign a then default_nan else if is_inf a then a
      else f32_sqrt_fin (f32_mant a) (f32_scale a) (if even (f32_scale a) then 52 else 53))"

text \<open>\<open>fma (a, b, c)\<close>: \<open>a * b + c\<close> with a single rounding.\<close>

definition f32_fma_fin :: "f32 \<Rightarrow> f32 \<Rightarrow> f32 \<Rightarrow> int \<Rightarrow> f32" where
  "f32_fma_fin a b c e =
     f32_sum ((f32_sign a \<noteq> f32_sign b) \<and> f32_sign c)
       ((if f32_sign a \<noteq> f32_sign b then - 1 else 1) * int (f32_mant a * f32_mant b)
            * 2 ^ nat (f32_scale a + f32_scale b - e)
          + f32_sval c * 2 ^ nat (f32_scale c - e)) e"

definition f32_fma :: "f32 \<Rightarrow> f32 \<Rightarrow> f32 \<Rightarrow> f32" where
  "f32_fma a b c =
     (if is_nan a then quiet a else if is_nan b then quiet b else if is_nan c then quiet c
      else if (is_inf a \<and> is_zero b) \<or> (is_zero a \<and> is_inf b) then default_nan
      else if is_inf a \<or> is_inf b then
        (if is_inf c \<and> f32_sign c \<noteq> (f32_sign a \<noteq> f32_sign b) then default_nan
         else f32_pack (f32_sign a \<noteq> f32_sign b) (255 * 2 ^ 23))
      else if is_inf c then c
      else f32_fma_fin a b c (min (f32_scale a + f32_scale b) (f32_scale c)))"

text \<open>\<open>_mm256_fnmadd_ps (a, b, c)\<close>: \<open>- (a * b) + c\<close> with a single rounding.\<close>

definition f32_fnmadd :: "f32 \<Rightarrow> f32 \<Rightarrow> f32 \<Rightarrow> f32" where
  "f32_fnmadd a b c =
     (if is_nan a then quiet a else if is_nan b then quiet b else if is_nan c then quiet c
      else f32_fma (f32_neg a) b c)"

subsection \<open>Comparisons and conversions\<close>

text \<open>The order of the values: both zeros get the key 0, and a NaN compares false.\<close>

definition f32_key :: "f32 \<Rightarrow> int" where
  "f32_key w = (if f32_sign w then - int (unat w mod 2 ^ 31) else int (unat w mod 2 ^ 31))"

definition f32_eq :: "f32 \<Rightarrow> f32 \<Rightarrow> bool" where
  "f32_eq a b = (\<not> is_nan a \<and> \<not> is_nan b \<and> f32_key a = f32_key b)"

definition f32_lt :: "f32 \<Rightarrow> f32 \<Rightarrow> bool" where
  "f32_lt a b = (\<not> is_nan a \<and> \<not> is_nan b \<and> f32_key a < f32_key b)"

definition f32_le :: "f32 \<Rightarrow> f32 \<Rightarrow> bool" where
  "f32_le a b = (\<not> is_nan a \<and> \<not> is_nan b \<and> f32_key a \<le> f32_key b)"

text \<open>\<open>(float) i\<close> for an \<open>int\<close>, and \<open>(int) x\<close>, which truncates and gives the
  "integer indefinite" \<open>- 2 ^ 31\<close> when the value does not fit.\<close>

definition f32_of_int :: "int \<Rightarrow> f32" where
  "f32_of_int i = f32_round (i < 0) (nat \<bar>i\<bar>) 0"

definition f32_trunc :: "f32 \<Rightarrow> int" where
  "f32_trunc w = (if 0 \<le> f32_scale w then f32_sval w * 2 ^ nat (f32_scale w)
                  else (if f32_sign w then - 1 else 1)
                       * int (f32_mant w div 2 ^ nat (- f32_scale w)))"

definition f32_to_int :: "f32 \<Rightarrow> int" where
  "f32_to_int w =
     (if \<not> is_finite w \<or> f32_trunc w < - (2 ^ 31) \<or> 2 ^ 31 \<le> f32_trunc w then - (2 ^ 31)
      else f32_trunc w)"

subsection \<open>Evaluation on literals\<close>

lemma bitlen_0 [simp]: "bitlen 0 = 0"
  by (simp add: bitlen.simps)

lemma bitlen_Suc_0 [simp]: "bitlen (Suc 0) = Suc 0"
  by (subst bitlen.simps) simp

lemma bitlen_1 [simp]: "bitlen 1 = Suc 0"
  using bitlen_Suc_0 by simp

lemma bitlen_One [simp]: "bitlen (numeral Num.One) = Suc 0"
  using bitlen_Suc_0 by simp

lemma bitlen_Bit0 [simp]: "bitlen (numeral (Num.Bit0 k)) = Suc (bitlen (numeral k))"
  by (subst bitlen.simps) simp

lemma bitlen_Bit1 [simp]: "bitlen (numeral (Num.Bit1 k)) = Suc (bitlen (numeral k))"
  by (subst bitlen.simps) simp

lemma isqrt_aux_numeral [simp]:
  "isqrt_aux n (numeral k) r =
     isqrt_aux n (pred_numeral k)
       (if (r + 2 ^ pred_numeral k) * (r + 2 ^ pred_numeral k) \<le> n
        then r + 2 ^ pred_numeral k else r)"
  by (simp add: numeral_eq_Suc)

lemmas f32_eval =
  f32_sign_def f32_expo_def f32_frac_def is_nan_def is_inf_def is_zero_def is_finite_def
  f32_mant_def f32_scale_def f32_sval_def f32_pack_def quiet_def default_nan_def f32_neg_def
  rne_aux_def rne_def f32_finish_def f32_round_q_def f32_round_def f32_mul_def f32_sum_def
  f32_add_fin_def f32_add_def f32_sub_def f32_quot_def f32_div_def isqrt_def f32_sqrt_aux_def
  f32_sqrt_fin_def f32_sqrt_def f32_fma_fin_def f32_fma_def f32_fnmadd_def f32_key_def
  f32_eq_def f32_lt_def f32_le_def f32_of_int_def f32_trunc_def f32_to_int_def

section \<open>The float literals of the sources\<close>

definition lit_0_0f :: f32 where "lit_0_0f = 0x00000000"
definition lit_0_5f :: f32 where "lit_0_5f = 0x3F000000"
definition lit_1_0f :: f32 where "lit_1_0f = 0x3F800000"
definition lit_1_5f :: f32 where "lit_1_5f = 0x3FC00000"
definition lit_1_5000036f :: f32 where "lit_1_5000036f = 0x3FC0001E"
definition lit_1_5008908f :: f32 where "lit_1_5008908f = 0x3FC01D31"
definition lit_0_0625f :: f32 where "lit_0_0625f = 0x3D800000"
definition lit_0_25f :: f32 where "lit_0_25f = 0x3E800000"
definition lit_4_0f :: f32 where "lit_4_0f = 0x40800000"
definition lit_3_5f :: f32 where "lit_3_5f = 0x40600000"
definition lit_3_75f :: f32 where "lit_3_75f = 0x40700000"
definition lit_100_0f :: f32 where "lit_100_0f = 0x42C80000"
definition lit_255_0f :: f32 where "lit_255_0f = 0x437F0000"
definition lit_256_0f :: f32 where "lit_256_0f = 0x43800000"
definition lit_1023_0f :: f32 where "lit_1023_0f = 0x447FC000"
definition lit_0_01f :: f32 where "lit_0_01f = 0x3C23D70A"
definition lit_1_50087900f :: f32 where "lit_1_50087900f = 0x3FC01CCE"
definition lit_m0_50062900f :: f32 where "lit_m0_50062900f = 0xBF002939"
definition lit_0_00017350f :: f32 where "lit_0_00017350f = 0x3935ED8D"

lemmas lit_defs =
  lit_0_0f_def lit_0_5f_def lit_1_0f_def lit_1_5f_def lit_1_5000036f_def lit_1_5008908f_def
  lit_0_0625f_def lit_0_25f_def lit_4_0f_def lit_3_5f_def lit_3_75f_def lit_100_0f_def
  lit_255_0f_def lit_256_0f_def lit_1023_0f_def lit_0_01f_def lit_1_50087900f_def
  lit_m0_50062900f_def lit_0_00017350f_def

text \<open>Each pattern is the binary32 nearest to the decimal literal it stands for.\<close>

lemma literals_exact:
  "f32_quot False 1 2 0 = lit_0_5f"
  "f32_quot False 1 1 0 = lit_1_0f"
  "f32_quot False 3 2 0 = lit_1_5f"
  "f32_quot False 1 16 0 = lit_0_0625f"
  "f32_quot False 1 4 0 = lit_0_25f"
  "f32_quot False 4 1 0 = lit_4_0f"
  "f32_quot False 7 2 0 = lit_3_5f"
  "f32_quot False 15 4 0 = lit_3_75f"
  "f32_quot False 100 1 0 = lit_100_0f"
  "f32_quot False 255 1 0 = lit_255_0f"
  "f32_quot False 256 1 0 = lit_256_0f"
  "f32_quot False 1023 1 0 = lit_1023_0f"
  by (simp_all add: f32_eval lit_defs)

lemma literals_nearest:
  "f32_quot False 15000036 10000000 0 = lit_1_5000036f"
  "f32_quot False 15008908 10000000 0 = lit_1_5008908f"
  "f32_quot False 1 100 0 = lit_0_01f"
  "f32_quot False 150087900 100000000 0 = lit_1_50087900f"
  "f32_quot True 50062900 100000000 0 = lit_m0_50062900f"
  "f32_quot False 17350 100000000 0 = lit_0_00017350f"
  by (simp_all add: f32_eval lit_defs)

section \<open>The scalar kernels\<close>

text \<open>
  Every kernel starts with the bit-level guess \<open>magic - (i >> 1)\<close> on the pattern of its
  argument. The guess is kept as a function of its own, named after the kernel, so that
  the later stages can be stated on top of it.
\<close>

subsection \<open>\<open>fast_inverse_sqrt_baseline.cpp\<close> (also the head of \<open>hybrid_vector_rsqrt.cpp\<close>,
  \<open>neural_inspired_rsqrt.cpp\<close> and \<open>ultra_optimized_rsqrt.cpp\<close>)\<close>

text \<open>
  \<open>Q_rsqrt\<close> reads the float through a \<open>long\<close>: \<open>i = * ( long * ) &y\<close>. The sources are
  written for x86-64 with gcc or clang (\<open>immintrin.h\<close>, \<open>__builtin_prefetch\<close>), where a
  \<open>long\<close> has 64 bits and the byte order is little-endian: the read takes eight bytes,
  the four of \<open>y\<close> as the low half and the four that follow \<open>y\<close> in memory as the high
  half. What those four bytes hold is not fixed by the function, so they are a parameter,
  \<open>adjacent\<close>. \<open>>>\<close> on the signed \<open>i\<close> is the arithmetic shift of the 64-bit value, the
  subtraction is a 64-bit one, and \<open>* ( float * ) &i\<close> reads the low four bytes back.
\<close>

definition Q_rsqrt_long_guess :: "32 word \<Rightarrow> f32 \<Rightarrow> f32" where
  "Q_rsqrt_long_guess adjacent number =
     (let y = number;
          i = (word_cat adjacent y :: 64 word);
          i = 0x5f3759df - signed_drop_bit 1 i
      in ucast i)"

definition Q_rsqrt_long :: "32 word \<Rightarrow> f32 \<Rightarrow> f32" where
  "Q_rsqrt_long adjacent number =
     (let threehalfs = lit_1_5f;
          x2 = f32_mul number lit_0_5f;
          y = Q_rsqrt_long_guess adjacent number;
          y = f32_mul y (f32_sub threehalfs (f32_mul (f32_mul x2 y) y))
      in y)"

subsection \<open>\<open>rsqrt_comparison.cpp\<close> (\<open>Q_rsqrt\<close> also in \<open>fast_reciprocal_sqrt_final.cpp\<close> and
  \<open>fast_reciprocal_sqrt_hybrid.cpp\<close>)\<close>

definition Q_rsqrt_guess :: "f32 \<Rightarrow> f32" where
  "Q_rsqrt_guess number = 0x5f3759df - drop_bit 1 number"

definition Q_rsqrt :: "f32 \<Rightarrow> f32" where
  "Q_rsqrt number =
     (let threehalfs = lit_1_5f;
          x2 = f32_mul number lit_0_5f;
          y = Q_rsqrt_guess number;
          y = f32_mul y (f32_sub threehalfs (f32_mul (f32_mul x2 y) y))
      in y)"

definition optimized_rsqrt_guess :: "f32 \<Rightarrow> f32" where
  "optimized_rsqrt_guess x = 0x5f375a86 - drop_bit 1 x"

definition optimized_rsqrt :: "f32 \<Rightarrow> f32" where
  "optimized_rsqrt x =
     (let y = optimized_rsqrt_guess x;
          x2 = f32_mul x lit_0_5f;
          y = f32_mul y (f32_sub lit_1_5000036f (f32_mul (f32_mul x2 y) y));
          y = f32_mul y (f32_sub lit_1_5f (f32_mul (f32_mul x2 y) y))
      in y)"

subsection \<open>\<open>accuracy_comparison.cpp\<close>\<close>


definition enhancedInvSqrt_guess :: "f32 \<Rightarrow> f32" where
  "enhancedInvSqrt_guess number = 0x5f375a86 - drop_bit 1 number"

definition enhancedInvSqrt :: "f32 \<Rightarrow> f32" where
  "enhancedInvSqrt number =
     (let x2 = f32_mul number lit_0_5f;
          f = enhancedInvSqrt_guess number;
          f = f32_mul f (f32_sub lit_1_5f (f32_mul (f32_mul x2 f) f));
          f = f32_mul f (f32_sub lit_1_5f (f32_mul (f32_mul x2 f) f))
      in f)"

subsection \<open>\<open>final_game_algorithm.cpp\<close>\<close>

text \<open>Here the pattern is read through an \<open>int\<close>, so \<open>i >> 1\<close> is again arithmetic.\<close>

definition fast_rsqrt_improved_guess :: "f32 \<Rightarrow> f32" where
  "fast_rsqrt_improved_guess number =
     (let y = number;
          i = y;
          i = 0x5f375a86 - signed_drop_bit 1 i
      in i)"

definition fast_rsqrt_improved :: "f32 \<Rightarrow> f32" where
  "fast_rsqrt_improved number =
     (let x2 = f32_mul number lit_0_5f;
          y = fast_rsqrt_improved_guess number;
          y = f32_mul y (f32_sub lit_1_5f (f32_mul (f32_mul x2 y) y));
          y = f32_mul y (f32_sub lit_1_5f (f32_mul (f32_mul x2 y) y))
      in y)"


subsection \<open>\<open>neural_inspired_rsqrt.cpp\<close>: the constants and the guess of \<open>NeuralRsqrt::compute\<close>\<close>

record MagicConstants =
  denormal :: "32 word"
  tiny :: "32 word"
  small :: "32 word"
  medium :: "32 word"
  large :: "32 word"
  huge :: "32 word"
  poly_a :: f32
  poly_b :: f32
  poly_c :: f32

definition magic_consts :: MagicConstants where
  "magic_consts =
     \<lparr> denormal = 0x5f3759df, tiny = 0x5f375a86, small = 0x5f375a00, medium = 0x5f3759df,
       large = 0x5f37599e, huge = 0x5f375800,
       poly_a = lit_1_50087900f, poly_b = lit_m0_50062900f, poly_c = lit_0_00017350f \<rparr>"

text \<open>\<open>exp = (conv.i >> 23) & 0xFF\<close> and the chain of comparisons that picks the constant.\<close>

definition NeuralRsqrt_magic :: "f32 \<Rightarrow> 32 word" where
  "NeuralRsqrt_magic x =
     (let exp = drop_bit 23 x AND 0xFF
      in if exp < 64 then tiny magic_consts
         else if exp < 102 then small magic_consts
         else if exp < 134 then medium magic_consts
         else if exp < 157 then large magic_consts
         else huge magic_consts)"

definition NeuralRsqrt_guess :: "f32 \<Rightarrow> f32" where
  "NeuralRsqrt_guess x = NeuralRsqrt_magic x - drop_bit 1 x"

section \<open>The bit-level guess (BitApproximator)\<close>

text \<open>
  The specification's \<open>approximate\<close>, in its own words: reinterpret the pattern of \<open>x\<close> as
  an unsigned integer \<open>i\<close>, compute \<open>magic_constant - (i >> 1)\<close>, reinterpret the result
  as a float. It is written on unbounded integers, reduced to 32 bits at the end.
\<close>

definition approximate_spec :: "32 word \<Rightarrow> f32 \<Rightarrow> f32" where
  "approximate_spec magic_constant x = word_of_int (uint magic_constant - uint x div 2)"

text \<open>\<open>x > 0\<close> and finite, as a float comparison and a test of the exponent field.\<close>

definition pos_finite :: "f32 \<Rightarrow> bool" where
  "pos_finite x = (f32_lt lit_0_0f x \<and> is_finite x)"

lemma approximate_spec_word: "approximate_spec magic x = magic - drop_bit 1 x"
proof -
  have "uint x div 2 = uint (drop_bit 1 x)"
    by (simp add: drop_bit_eq_div uint_div)
  then show ?thesis
    by (simp add: approximate_spec_def)
qed

lemma pos_finite_range: "pos_finite x \<Longrightarrow> 0 < unat x \<and> unat x < 255 * 2 ^ 23"
proof -
  assume a: "pos_finite x"
  from a have k: "0 < f32_key x" and f: "unat x div 2 ^ 23 mod 256 < 255"
    by (simp_all add: pos_finite_def f32_lt_def f32_key_def lit_0_0f_def f32_sign_def
        is_finite_def f32_expo_def)
  from k have s: "unat x < 2 ^ 31"
    by (auto simp add: f32_key_def f32_sign_def split: if_splits)
  from k have p: "0 < unat x"
    by (cases "unat x = 0") (auto simp add: f32_key_def f32_sign_def split: if_splits)
  from s have "unat x div 2 ^ 23 < 256" by simp
  with f have "unat x div 2 ^ 23 < 255" by simp
  then have "unat x < 255 * 2 ^ 23" by simp
  with p show ?thesis by simp
qed

lemma bit_31_nat: "bit (n::nat) 31 \<Longrightarrow> 2 ^ 31 \<le> n"
  by (rule ccontr) (simp add: bit_iff_odd not_le)

lemma msb_clear: "unat (x::32 word) < 2 ^ 31 \<Longrightarrow> \<not> bit x 31"
proof
  assume u: "unat x < 2 ^ 31" and b: "bit x 31"
  from b have "bit (unat x) 31" by (simp add: bit_unsigned_iff)
  then have "2 ^ 31 \<le> unat x" by (rule bit_31_nat)
  with u show False by simp
qed

lemma pos_finite_msb: "pos_finite x \<Longrightarrow> \<not> bit x 31"
  using pos_finite_range [of x] by (intro msb_clear) simp

lemma signed_shift_pos: "\<not> bit x 31 \<Longrightarrow> signed_drop_bit 1 x = drop_bit 1 (x :: 32 word)"
proof (rule bit_word_eqI)
  fix n assume nb: "\<not> bit x 31" and n: "n < LENGTH(32)"
  have b32: "\<not> bit x 32"
    using bit_imp_le_length [of x 32] by auto
  show "bit (signed_drop_bit 1 x) n = bit (drop_bit 1 x) n"
    using nb b32 n by (cases "n = 31") (simp_all add: bit_signed_drop_bit_iff bit_drop_bit_eq)
qed

lemma NeuralRsqrt_magic_cases:
  "NeuralRsqrt_magic x \<in> {0x5f375a86, 0x5f375a00, 0x5f3759df, 0x5f37599e, 0x5f375800}"
  by (simp add: NeuralRsqrt_magic_def magic_consts_def Let_def)

subsection \<open>The sign bit of a pattern\<close>

lemma bit_k31: "bit (2 ^ 31 :: 32 word) n \<longleftrightarrow> n = 31"
  by (simp only: bit_exp_iff possible_bit_word) auto

lemma bit_k31': "bit (0x80000000 :: 32 word) n \<longleftrightarrow> n = 31"
proof -
  have "(0x80000000 :: 32 word) = 2 ^ 31" by simp
  then show ?thesis by (simp only: bit_k31)
qed

lemma xor_msb_add_clear: "\<not> bit (w :: 32 word) 31 \<Longrightarrow> w XOR 0x80000000 = w + 0x80000000"
proof -
  assume "\<not> bit w 31"
  then have "w AND 0x80000000 = 0"
    by (intro bit_eqI) (auto simp only: bit_and_iff bit_k31' bit_0_eq)
  then show ?thesis
    by (simp only: disjunctive_add_eq_xor)
qed

lemma xor_msb_add: "(w :: 32 word) XOR 0x80000000 = w + 0x80000000"
proof (cases "bit w 31")
  case False
  then show ?thesis by (rule xor_msb_add_clear)
next
  case True
  define v where "v = w XOR 0x80000000"
  have "\<not> bit v 31"
    using True by (simp only: v_def bit_xor_iff bit_k31') simp
  then have "v XOR 0x80000000 = v + 0x80000000"
    by (rule xor_msb_add_clear)
  moreover have "v XOR 0x80000000 = w"
    by (simp add: v_def xor.assoc)
  ultimately have "w + 0x80000000 = v + 0x80000000 + 0x80000000"
    by simp
  also have "\<dots> = v"
    by simp
  finally show ?thesis
    by (simp add: v_def)
qed

lemma f32_neg_add: "f32_neg w = w + 0x80000000"
  using xor_msb_add [of w] by (simp only: f32_neg_def)

subsection \<open>The guess of the \<open>long\<close> variant\<close>

lemma ucast_minus_64_32: "(ucast (a - b :: 64 word) :: 32 word) = ucast a - ucast b"
proof -
  have m: "(word_of_int (k mod 2 ^ 64) :: 32 word) = word_of_int k" for k
    by (simp add: word_of_int_eq_iff take_bit_eq_mod mod_mod_cancel)
  have "(ucast (a - b) :: 32 word) = word_of_int (uint (a - b))"
    by simp
  also have "\<dots> = word_of_int ((uint a - uint b) mod 2 ^ 64)"
    by (simp only: uint_word_ariths) simp
  also have "\<dots> = word_of_int (uint a - uint b)"
    by (rule m)
  also have "\<dots> = ucast a - ucast b"
    by simp
  finally show ?thesis .
qed

text \<open>The low half of the shifted 64-bit value: the pattern of \<open>x\<close> shifted right, with
  bit 0 of the adjacent word in bit 31.\<close>

lemma ucast_signed_drop_bit_word_cat:
  "(ucast (signed_drop_bit 1 (word_cat (adjacent :: 32 word) (x :: 32 word) :: 64 word)) :: 32 word)
     = drop_bit 1 x XOR (if bit adjacent 0 then 0x80000000 else 0)"
proof (rule bit_word_eqI)
  fix n assume n: "n < LENGTH(32)"
  have k: "bit (0x80000000 :: 32 word) n \<longleftrightarrow> n = 31"
    by (rule bit_k31')
  show "bit (ucast (signed_drop_bit 1 (word_cat adjacent x :: 64 word)) :: 32 word) n
          = bit (drop_bit 1 x XOR (if bit adjacent 0 then 0x80000000 else 0)) n"
    using n k by (cases "n = 31")
      (auto simp add: bit_ucast_iff bit_signed_drop_bit_iff bit_word_cat_iff bit_drop_bit_eq
        bit_xor_iff dest: bit_imp_le_length)
qed

lemma Q_rsqrt_long_guess_eq:
  "Q_rsqrt_long_guess adjacent x
     = (if bit adjacent 0 then f32_neg (approximate_spec 0x5f3759df x)
        else approximate_spec 0x5f3759df x)"
proof -
  have "Q_rsqrt_long_guess adjacent x
          = 0x5f3759df - (drop_bit 1 x XOR (if bit adjacent 0 then 0x80000000 else 0))"
    by (simp only: Q_rsqrt_long_guess_def Let_def ucast_minus_64_32
        ucast_signed_drop_bit_word_cat) simp
  also have "\<dots> = (if bit adjacent 0 then 0x5f3759df - drop_bit 1 x + 0x80000000
                     else 0x5f3759df - drop_bit 1 x)"
    by (simp add: xor_msb_add)
  finally show ?thesis
    by (simp only: approximate_spec_word f32_neg_add)
qed

text \<open>
  Claim C2. For every finite float \<open>x > 0\<close> the guess of the kernels that read the pattern
  through a 32-bit integer (\<open>Q_rsqrt\<close> of \<open>rsqrt_comparison.cpp\<close>, \<open>optimized_rsqrt\<close>,
  \<open>enhancedInvSqrt\<close>, \<open>fast_rsqrt_improved\<close>, \<open>NeuralRsqrt::compute\<close>) is exactly the float
  whose pattern is \<open>magic_constant - (i >> 1)\<close>, \<open>i\<close> the pattern of \<open>x\<close> read as an unsigned
  integer: with the single constant \<open>0x5f3759df\<close> or \<open>0x5f375a86\<close> where the source has
  one, and with the constant that \<open>NeuralRsqrt::compute\<close> selects from the exponent field
  of \<open>x\<close>; it is a function of the pattern of \<open>x\<close> alone. The guess of \<open>Q_rsqrt\<close> in
  \<open>fast_inverse_sqrt_baseline.cpp\<close>, which reads eight bytes through a \<open>long\<close>, is that
  float when bit 0 of the four bytes after \<open>y\<close> is clear, and that float with the sign
  bit flipped when it is set.
\<close>

theorem approximate_is_magic_minus_half_bits:
  assumes "pos_finite x"
  shows "Q_rsqrt_guess x = approximate_spec 0x5f3759df x
       \<and> optimized_rsqrt_guess x = approximate_spec 0x5f375a86 x
       \<and> enhancedInvSqrt_guess x = approximate_spec 0x5f375a86 x
       \<and> fast_rsqrt_improved_guess x = approximate_spec 0x5f375a86 x
       \<and> NeuralRsqrt_guess x = approximate_spec (NeuralRsqrt_magic x) x
       \<and> NeuralRsqrt_magic x \<in> {0x5f375a86, 0x5f375a00, 0x5f3759df, 0x5f37599e, 0x5f375800}
       \<and> Q_rsqrt_long_guess adjacent x
           = (if bit adjacent 0 then f32_neg (approximate_spec 0x5f3759df x)
              else approximate_spec 0x5f3759df x)"
proof -
  have sh: "signed_drop_bit (Suc 0) x = drop_bit (Suc 0) x"
    using signed_shift_pos [OF pos_finite_msb [OF assms]] by simp
  have "Q_rsqrt_guess x = approximate_spec 0x5f3759df x
       \<and> optimized_rsqrt_guess x = approximate_spec 0x5f375a86 x
       \<and> enhancedInvSqrt_guess x = approximate_spec 0x5f375a86 x
       \<and> fast_rsqrt_improved_guess x = approximate_spec 0x5f375a86 x
       \<and> NeuralRsqrt_guess x = approximate_spec (NeuralRsqrt_magic x) x
       \<and> NeuralRsqrt_magic x \<in> {0x5f375a86, 0x5f375a00, 0x5f3759df, 0x5f37599e, 0x5f375800}"
    by (simp add: approximate_spec_word Q_rsqrt_guess_def
        optimized_rsqrt_guess_def enhancedInvSqrt_guess_def fast_rsqrt_improved_guess_def
        NeuralRsqrt_guess_def sh NeuralRsqrt_magic_cases [simplified])
  then show ?thesis
    using Q_rsqrt_long_guess_eq [of adjacent x] by blast
qed

theorem approximate_is_magic_minus_half_bits_witness:
  "pos_finite 0x40800000
   \<and> Q_rsqrt_guess 0x40800000 = 0x3EF759DF
   \<and> fast_rsqrt_improved_guess 0x40800000 = 0x3EF75A86
   \<and> NeuralRsqrt_guess 0x40800000 = approximate_spec 0x5f3759df 0x40800000
   \<and> Q_rsqrt_long_guess 0 0x40800000 = 0x3EF759DF"
proof -
  have p: "pos_finite 0x40800000"
    by (simp add: pos_finite_def lit_defs f32_eval)
  have m: "NeuralRsqrt_magic 0x40800000 = 0x5f3759df"
    by (simp add: NeuralRsqrt_magic_def magic_consts_def)
  have a: "approximate_spec 0x5f375a86 0x40800000 = 0x3EF75A86"
    "approximate_spec 0x5f3759df 0x40800000 = 0x3EF759DF"
    by (simp_all add: approximate_spec_word)
  show ?thesis
    using approximate_is_magic_minus_half_bits [OF p, of 0] p m a by simp
qed

text \<open>
  \<open>Q_rsqrt (4.0f)\<close> of \<open>fast_inverse_sqrt_baseline.cpp\<close> with an odd word after \<open>y\<close>: the
  claim gives the guess \<open>0x3EF759DF\<close> (about 0.4831), the code computes \<open>0xBEF759DF\<close>
  and returns \<open>0xBEFF910F\<close> (about -0.4991) where an even word gives \<open>0x3EFF910F\<close>.
\<close>

theorem Q_rsqrt_long_reads_adjacent_word:
  "approximate_spec 0x5f3759df 0x40800000 = 0x3EF759DF
   \<and> Q_rsqrt_long_guess 1 0x40800000 = 0xBEF759DF
   \<and> Q_rsqrt_long 1 0x40800000 = 0xBEFF910F
   \<and> Q_rsqrt_long 0 0x40800000 = 0x3EFF910F"
proof -
  have a: "approximate_spec 0x5f3759df 0x40800000 = 0x3EF759DF"
    by (simp add: approximate_spec_word)
  have g: "Q_rsqrt_long_guess 1 0x40800000 = 0xBEF759DF"
    "Q_rsqrt_long_guess 0 0x40800000 = 0x3EF759DF"
    by (simp_all add: Q_rsqrt_long_guess_eq a f32_neg_def)
  have r: "Q_rsqrt_long 1 0x40800000 = 0xBEFF910F" "Q_rsqrt_long 0 0x40800000 = 0x3EFF910F"
    by (simp_all add: Q_rsqrt_long_def g f32_eval lit_defs cong: let_weak_cong)
  show ?thesis
    using a g r by simp
qed

section \<open>Newton-Raphson refinement (Refiner)\<close>

text \<open>
  One update \<open>y \<mapsto> y * (c - 0.5 * x * y\<^sup>2)\<close>, with the product evaluated in the order
  the kernels write it: \<open>x2 = x * 0.5f\<close> first, then \<open>x2 * y * y\<close> from the left.
\<close>

definition nr_update :: "f32 \<Rightarrow> f32 \<Rightarrow> f32 \<Rightarrow> f32" where
  "nr_update c x y = f32_mul y (f32_sub c (f32_mul (f32_mul (f32_mul x lit_0_5f) y) y))"

text \<open>The specification's \<open>refine\<close>: \<open>steps\<close> updates in a row, starting from \<open>y0\<close>.\<close>

definition refine :: "f32 \<Rightarrow> f32 \<Rightarrow> f32 \<Rightarrow> nat \<Rightarrow> f32" where
  "refine c x y0 steps = (nr_update c x ^^ steps) y0"

subsection \<open>The refinement stage of \<open>NeuralRsqrt::compute\<close>\<close>

datatype PrecisionLevel = ULTRA_FAST | FAST | PRECISE | ULTRA_PRECISE

text \<open>The \<open>switch (precision)\<close> at the end of \<open>compute\<close>; \<open>PRECISE\<close> and \<open>FAST\<close> fall
  through to the cases below them.\<close>

definition NeuralRsqrt_switch :: "PrecisionLevel \<Rightarrow> f32 \<Rightarrow> f32 \<Rightarrow> f32 \<Rightarrow> f32" where
  "NeuralRsqrt_switch precision x x2 y =
     (case precision of
        ULTRA_PRECISE \<Rightarrow> f32_div lit_1_0f (f32_sqrt x)
      | PRECISE \<Rightarrow>
          (let y = f32_mul y (f32_sub lit_1_5f (f32_mul (f32_mul x2 y) y));
               y = f32_mul y (f32_sub lit_1_5f (f32_mul (f32_mul x2 y) y));
               y = f32_mul y (f32_sub lit_1_5f (f32_mul (f32_mul x2 y) y))
           in y)
      | FAST \<Rightarrow>
          (let y = f32_mul y (f32_sub lit_1_5f (f32_mul (f32_mul x2 y) y));
               y = f32_mul y (f32_sub lit_1_5f (f32_mul (f32_mul x2 y) y))
           in y)
      | ULTRA_FAST \<Rightarrow>
          (let y = f32_mul y (f32_sub lit_1_5f (f32_mul (f32_mul x2 y) y))
           in y))"

lemma refine_0: "refine c x y0 0 = y0"
  by (simp add: refine_def)

lemma refine_Suc: "refine c x y0 (Suc n) = nr_update c x (refine c x y0 n)"
  by (simp add: refine_def)

lemma refine_1: "refine c x y0 1 = nr_update c x y0"
  by (simp add: refine_def)

lemma refine_2: "refine c x y0 2 = nr_update c x (nr_update c x y0)"
  by (simp add: refine_def numeral_2_eq_2)

lemma refine_3: "refine c x y0 3 = nr_update c x (nr_update c x (nr_update c x y0))"
  by (simp add: refine_def numeral_3_eq_3)

text \<open>
  Claim C3. \<open>refine x y0 steps\<close> applies exactly \<open>steps\<close> successive updates
  \<open>y \<mapsto> y * (c - 0.5 * x * y\<^sup>2)\<close> starting from \<open>y0\<close>, and zero steps return \<open>y0\<close>
  unchanged. The kernels are instances of it on top of their guess: one step with
  \<open>c = 1.5\<close> in \<open>Q_rsqrt\<close>, two in \<open>enhancedInvSqrt\<close> and \<open>fast_rsqrt_improved\<close>, one, two
  or three in \<open>NeuralRsqrt::compute\<close> for \<open>ULTRA_FAST\<close>, \<open>FAST\<close> and \<open>PRECISE\<close>, and in
  \<open>optimized_rsqrt\<close> a first step with the tuned constant \<open>1.5000036\<close> followed by one
  with \<open>1.5\<close>.
\<close>

theorem refine_applies_steps_updates:
  "refine c x y0 0 = y0
   \<and> refine c x y0 (Suc n) = nr_update c x (refine c x y0 n)
   \<and> Q_rsqrt x = refine lit_1_5f x (Q_rsqrt_guess x) 1
   \<and> Q_rsqrt_long adjacent x = refine lit_1_5f x (Q_rsqrt_long_guess adjacent x) 1
   \<and> enhancedInvSqrt x = refine lit_1_5f x (enhancedInvSqrt_guess x) 2
   \<and> fast_rsqrt_improved x = refine lit_1_5f x (fast_rsqrt_improved_guess x) 2
   \<and> optimized_rsqrt x
       = refine lit_1_5f x (refine lit_1_5000036f x (optimized_rsqrt_guess x) 1) 1
   \<and> NeuralRsqrt_switch ULTRA_FAST x (f32_mul x lit_0_5f) y = refine lit_1_5f x y 1
   \<and> NeuralRsqrt_switch FAST x (f32_mul x lit_0_5f) y = refine lit_1_5f x y 2
   \<and> NeuralRsqrt_switch PRECISE x (f32_mul x lit_0_5f) y = refine lit_1_5f x y 3"
  by (simp add: refine_0 refine_Suc refine_1 refine_2 refine_3 nr_update_def Q_rsqrt_def
      Q_rsqrt_long_def enhancedInvSqrt_def fast_rsqrt_improved_def optimized_rsqrt_def
      NeuralRsqrt_switch_def Let_def)

section \<open>The memoising cache of \<open>final_game_algorithm.cpp\<close>\<close>

text \<open>\<open>struct CacheEntry { float input; float output; }\<close>\<close>

record CacheEntry =
  entry_input :: f32
  entry_output :: f32

definition CACHE_SIZE :: nat where
  "CACHE_SIZE = 1024"

definition CACHE_MASK :: "32 word" where
  "CACHE_MASK = 1023"

text \<open>\<open>cache\<close> is an array of \<open>CACHE_SIZE\<close> entries; the constructor clears it with
  \<open>memset\<close>, so every entry starts as the pair of floats \<open>+0.0\<close>.\<close>

type_synonym FastRsqrtCache = "CacheEntry list"

definition FastRsqrtCache_init :: FastRsqrtCache where
  "FastRsqrtCache_init = replicate CACHE_SIZE \<lparr> entry_input = 0, entry_output = 0 \<rparr>"

definition hash :: "f32 \<Rightarrow> 32 word" where
  "hash v = drop_bit 10 v AND CACHE_MASK"

text \<open>\<open>compute\<close> returns its result together with the cache as it leaves it. The test
  \<open>cache[idx].input == number\<close> is the comparison of floats.\<close>

definition FastRsqrtCache_compute :: "FastRsqrtCache \<Rightarrow> f32 \<Rightarrow> f32 \<times> FastRsqrtCache" where
  "FastRsqrtCache_compute cache number =
     (let idx = unat (hash number)
      in if f32_eq (entry_input (cache ! idx)) number then (entry_output (cache ! idx), cache)
         else (let result = fast_rsqrt_improved number
               in (result, cache[idx := \<lparr> entry_input = number, entry_output = result \<rparr>])))"

text \<open>The cache after a sequence of calls, in the order of the list.\<close>

fun FastRsqrtCache_calls :: "FastRsqrtCache \<Rightarrow> f32 list \<Rightarrow> FastRsqrtCache" where
  "FastRsqrtCache_calls cache [] = cache"
| "FastRsqrtCache_calls cache (x # xs) =
     FastRsqrtCache_calls (snd (FastRsqrtCache_compute cache x)) xs"

text \<open>Every entry is either untouched or holds a result of the uncached kernel.\<close>

definition cache_ok :: "FastRsqrtCache \<Rightarrow> bool" where
  "cache_ok cache =
     (length cache = CACHE_SIZE
      \<and> list_all (\<lambda>e. (entry_input e = 0 \<and> entry_output e = 0) \<or> entry_output e = fast_rsqrt_improved (entry_input e))
           cache)"

lemma hash_less: "unat (hash v) < CACHE_SIZE"
proof -
  have "hash v \<le> 1023"
    unfolding hash_def CACHE_MASK_def by (rule word_and_le1)
  then have "unat (hash v) \<le> 1023"
    by (simp add: word_le_nat_alt)
  then show ?thesis
    by (simp add: CACHE_SIZE_def)
qed

lemma cache_ok_init: "cache_ok FastRsqrtCache_init"
  by (simp add: cache_ok_def FastRsqrtCache_init_def list_all_iff)

lemma cache_ok_compute: "cache_ok cache \<Longrightarrow> cache_ok (snd (FastRsqrtCache_compute cache x))"
proof -
  assume ok: "cache_ok cache"
  have "list_all P (xs[i := v])" if "list_all P xs" and "P v" for P xs i and v :: CacheEntry
    using that set_update_subset_insert [of xs i v] by (auto simp add: list_all_iff)
  with ok show ?thesis
    by (simp add: FastRsqrtCache_compute_def cache_ok_def Let_def)
qed

lemma cache_ok_calls: "cache_ok cache \<Longrightarrow> cache_ok (FastRsqrtCache_calls cache xs)"
  by (induction xs arbitrary: cache) (simp_all add: cache_ok_compute)

lemma nat_split_31:
  assumes "n < 4294967296"
  shows "n = (if 2147483648 \<le> n then 2147483648 else 0) + n mod (2147483648 :: nat)"
proof (cases "n < 2147483648")
  case True
  then show ?thesis by simp
next
  case False
  then have "n - 2147483648 < 2147483648"
    using assms by simp
  then have "(n - 2147483648) mod 2147483648 = n - 2147483648"
    by simp
  moreover have "n mod 2147483648 = (n - 2147483648) mod 2147483648"
    using False by (simp add: le_mod_geq)
  ultimately show ?thesis
    using False by simp
qed

lemma unat_32_split: "unat (w :: 32 word) = (if f32_sign w then 2 ^ 31 else 0) + unat w mod 2 ^ 31"
proof -
  have e: "(2 :: nat) ^ 31 = 2147483648"
    by simp
  have "unat w < 2 ^ 32"
    using unsigned_less [of w, where ?'a = nat] by simp
  then have "unat w < 4294967296"
    by simp
  then show ?thesis
    unfolding f32_sign_def e by (rule nat_split_31)
qed

text \<open>Floats that compare equal and are not zero have the same pattern.\<close>

lemma f32_eq_nonzero_same_bits:
  assumes "f32_eq a x" and "\<not> f32_eq x lit_0_0f"
  shows "a = x"
proof -
  have z: "\<not> is_nan lit_0_0f" "f32_key lit_0_0f = 0"
    by (simp_all add: f32_eval lit_defs)
  from assms(1) have k: "f32_key a = f32_key x" and n: "\<not> is_nan x"
    by (simp_all add: f32_eq_def)
  from assms(2) n z have nz: "f32_key x \<noteq> 0"
    by (simp add: f32_eq_def)
  have s: "f32_sign a = f32_sign x"
    using k nz by (auto simp add: f32_key_def split: if_splits)
  then have "int (unat a mod 2 ^ 31) = int (unat x mod 2 ^ 31)"
    using k by (auto simp add: f32_key_def split: if_splits)
  then have m: "unat a mod 2 ^ 31 = unat x mod 2 ^ 31"
    by (simp only: of_nat_eq_iff)
  have "unat a = unat x"
    by (subst unat_32_split [of a], subst unat_32_split [of x]) (simp only: s m)
  then show ?thesis
    by (simp add: word_unat_eq_iff)
qed

text \<open>
  Claim C10. For every float \<open>x\<close> with \<open>x != 0.0f\<close> (the comparison of floats, which
  excludes both zeros and lets every NaN through) and after any sequence of earlier
  calls, \<open>FastRsqrtCache::compute (x)\<close> returns bit for bit what the uncached
  \<open>fast_rsqrt_improved (x)\<close> returns.
\<close>

theorem cache_returns_uncached_result:
  assumes "\<not> f32_eq x lit_0_0f"
  shows "fst (FastRsqrtCache_compute (FastRsqrtCache_calls FastRsqrtCache_init xs) x)
         = fast_rsqrt_improved x"
proof -
  define cache where "cache = FastRsqrtCache_calls FastRsqrtCache_init xs"
  define e where "e = cache ! unat (hash x)"
  have ok: "cache_ok cache"
    unfolding cache_def by (rule cache_ok_calls [OF cache_ok_init])
  then have "e \<in> set cache"
    unfolding e_def using hash_less [of x] by (simp add: cache_ok_def)
  with ok have inv: "(entry_input e = 0 \<and> entry_output e = 0) \<or> entry_output e = fast_rsqrt_improved (entry_input e)"
    by (simp add: cache_ok_def list_all_iff)
  have "entry_output e = fast_rsqrt_improved x" if hit: "f32_eq (entry_input e) x"
  proof -
    from hit assms have same: "entry_input e = x"
      by (rule f32_eq_nonzero_same_bits)
    with hit assms have "entry_input e \<noteq> 0"
      by (auto simp add: lit_0_0f_def)
    with inv same show ?thesis by simp
  qed
  then show ?thesis
    by (simp add: FastRsqrtCache_compute_def Let_def cache_def [symmetric] e_def [symmetric])
qed

theorem cache_returns_uncached_result_witness:
  "\<not> f32_eq 0x40800000 lit_0_0f
   \<and> fst (FastRsqrtCache_compute
            (FastRsqrtCache_calls FastRsqrtCache_init [0x40800000, 0x41100000]) 0x40800000)
       = fast_rsqrt_improved 0x40800000"
proof -
  have h: "\<not> f32_eq 0x40800000 lit_0_0f"
    by (simp add: f32_eval lit_defs)
  show ?thesis
    using cache_returns_uncached_result [OF h, of "[0x40800000, 0x41100000]"] h by simp
qed

section \<open>The classes with a correction table\<close>

subsection \<open>\<open>GameEngineFastRSqrt\<close> (\<open>fast_reciprocal_sqrt_final.cpp\<close>)\<close>

definition MAGIC_CONSTANT :: "32 word" where
  "MAGIC_CONSTANT = 0x5f375a86"

definition NR_CONSTANT_1 :: f32 where
  "NR_CONSTANT_1 = lit_1_5000036f"

definition NR_CONSTANT_2 :: f32 where
  "NR_CONSTANT_2 = lit_1_5f"

text \<open>The object holds \<open>float correction_lut[16]\<close> and nothing else.\<close>

record GameEngineFastRSqrt =
  correction_lut :: "f32 list"

text \<open>The body of the constructor's loop for one \<open>i\<close>: the value stored in
  \<open>correction_lut[i]\<close>.\<close>

definition GameEngineFastRSqrt_entry :: "int \<Rightarrow> f32" where
  "GameEngineFastRSqrt_entry i =
     (let x = f32_add (f32_mul lit_0_0625f (f32_of_int i)) lit_0_25f;
          exact = f32_div lit_1_0f (f32_sqrt x);
          approx = Q_rsqrt x
      in f32_div exact approx)"

function GameEngineFastRSqrt_fill :: "int \<Rightarrow> f32 list \<Rightarrow> f32 list" where
  "GameEngineFastRSqrt_fill i lut =
     (if i < 16 then GameEngineFastRSqrt_fill (i + 1) (lut[nat i := GameEngineFastRSqrt_entry i])
      else lut)"
  by pat_completeness auto

termination
  by (relation "measure (\<lambda>(i, lut). nat (16 - i))") auto

declare GameEngineFastRSqrt_fill.simps [simp del]

text \<open>The constructor runs the loop from \<open>i = 0\<close> on the storage of the new object,
  whose 16 floats hold anything before.\<close>

definition GameEngineFastRSqrt_ctor :: "f32 list \<Rightarrow> GameEngineFastRSqrt" where
  "GameEngineFastRSqrt_ctor raw = \<lparr> correction_lut = GameEngineFastRSqrt_fill 0 raw \<rparr>"

text \<open>The methods return their result together with the object as they leave it.\<close>

definition GameEngineFastRSqrt_guess :: "f32 \<Rightarrow> f32" where
  "GameEngineFastRSqrt_guess x = MAGIC_CONSTANT - drop_bit 1 x"

definition GameEngineFastRSqrt_compute ::
  "GameEngineFastRSqrt \<Rightarrow> f32 \<Rightarrow> f32 \<times> GameEngineFastRSqrt" where
  "GameEngineFastRSqrt_compute this x =
     (let y = GameEngineFastRSqrt_guess x;
          x2 = f32_mul x lit_0_5f;
          y = f32_mul y (f32_sub NR_CONSTANT_1 (f32_mul (f32_mul x2 y) y));
          y = f32_mul y (f32_sub NR_CONSTANT_2 (f32_mul (f32_mul x2 y) y))
      in (y, this))"

text \<open>\<open>normalize_vec3 (float* v)\<close> works in place on \<open>v[0]\<close>, \<open>v[1]\<close>, \<open>v[2]\<close>; the
  vector is the list of the floats \<open>v\<close> points to.\<close>

definition norm_sq_of :: "f32 list \<Rightarrow> f32" where
  "norm_sq_of v =
     f32_add (f32_add (f32_mul (v ! 0) (v ! 0)) (f32_mul (v ! 1) (v ! 1))) (f32_mul (v ! 2) (v ! 2))"

definition GameEngineFastRSqrt_normalize_vec3 ::
  "GameEngineFastRSqrt \<Rightarrow> f32 list \<Rightarrow> f32 list \<times> GameEngineFastRSqrt" where
  "GameEngineFastRSqrt_normalize_vec3 this v =
     (let norm_sq = norm_sq_of v;
          (inv_norm, this) = GameEngineFastRSqrt_compute this norm_sq;
          v = v[0 := f32_mul (v ! 0) inv_norm];
          v = v[1 := f32_mul (v ! 1) inv_norm];
          v = v[2 := f32_mul (v ! 2) inv_norm]
      in (v, this))"

subsection \<open>\<open>FastRecipSqrt\<close> (\<open>fast_reciprocal_sqrt_hybrid.cpp\<close>)\<close>

definition LUT_SIZE :: int where
  "LUT_SIZE = 256"

definition ITERATION_CONSTANT :: f32 where
  "ITERATION_CONSTANT = lit_1_5008908f"

record FastRecipSqrt =
  lut :: "f32 list"

definition FastRecipSqrt_entry :: "int \<Rightarrow> f32" where
  "FastRecipSqrt_entry i =
     (let mantissa = f32_add lit_1_0f (f32_div (f32_of_int i) (f32_of_int LUT_SIZE));
          exact = f32_div lit_1_0f (f32_sqrt mantissa);
          approx = f32_div lit_1_0f (f32_sqrt lit_1_5f)
      in f32_div exact approx)"

function FastRecipSqrt_fill :: "int \<Rightarrow> f32 list \<Rightarrow> f32 list" where
  "FastRecipSqrt_fill i t =
     (if i < LUT_SIZE then FastRecipSqrt_fill (i + 1) (t[nat i := FastRecipSqrt_entry i])
      else t)"
  by pat_completeness auto

termination
  by (relation "measure (\<lambda>(i, t). nat (LUT_SIZE - i))") auto

declare FastRecipSqrt_fill.simps [simp del]

definition FastRecipSqrt_ctor :: "f32 list \<Rightarrow> FastRecipSqrt" where
  "FastRecipSqrt_ctor raw = \<lparr> lut = FastRecipSqrt_fill 0 raw \<rparr>"

definition FastRecipSqrt_guess :: "f32 \<Rightarrow> f32" where
  "FastRecipSqrt_guess x = MAGIC_CONSTANT - drop_bit 1 x"

definition FastRecipSqrt_compute :: "FastRecipSqrt \<Rightarrow> f32 \<Rightarrow> f32 \<times> FastRecipSqrt" where
  "FastRecipSqrt_compute this x =
     (let mantissa_bits = drop_bit 15 (x AND 0x007FFFFF);
          lut_index = drop_bit 3 mantissa_bits;
          y = f32_mul (FastRecipSqrt_guess x) (lut this ! unat (lut_index AND (word_of_int (LUT_SIZE - 1))));
          x2 = f32_mul x lit_0_5f;
          y = f32_mul y (f32_sub ITERATION_CONSTANT (f32_mul (f32_mul x2 y) y))
      in (y, this))"

definition FastRecipSqrt_normalize_vector ::
  "FastRecipSqrt \<Rightarrow> f32 list \<Rightarrow> f32 list \<times> FastRecipSqrt" where
  "FastRecipSqrt_normalize_vector this vec3 =
     (let norm_sq = norm_sq_of vec3;
          (inv_norm, this) = FastRecipSqrt_compute this norm_sq;
          vec3 = vec3[0 := f32_mul (vec3 ! 0) inv_norm];
          vec3 = vec3[1 := f32_mul (vec3 ! 1) inv_norm];
          vec3 = vec3[2 := f32_mul (vec3 ! 2) inv_norm]
      in (vec3, this))"

subsection \<open>What the constructors leave in the tables\<close>

lemma GameEngineFastRSqrt_fill_length [simp]:
  "length (GameEngineFastRSqrt_fill i t) = length t"
  by (induction i t rule: GameEngineFastRSqrt_fill.induct)
    (subst GameEngineFastRSqrt_fill.simps, simp)

lemma GameEngineFastRSqrt_fill_nth:
  "0 \<le> i \<Longrightarrow> j < length t \<Longrightarrow>
     GameEngineFastRSqrt_fill i t ! j
       = (if i \<le> int j \<and> int j < 16 then GameEngineFastRSqrt_entry (int j) else t ! j)"
proof (induction i t rule: GameEngineFastRSqrt_fill.induct)
  case (1 i t)
  show ?case
  proof (cases "i < 16")
    case True
    have "GameEngineFastRSqrt_fill i t ! j
            = GameEngineFastRSqrt_fill (i + 1) (t[nat i := GameEngineFastRSqrt_entry i]) ! j"
      using True by (subst GameEngineFastRSqrt_fill.simps) simp
    also have "\<dots> = (if i + 1 \<le> int j \<and> int j < 16 then GameEngineFastRSqrt_entry (int j)
                      else t[nat i := GameEngineFastRSqrt_entry i] ! j)"
      using 1 True by simp
    also have "\<dots> = (if i \<le> int j \<and> int j < 16 then GameEngineFastRSqrt_entry (int j) else t ! j)"
      using 1(2,3) True by (cases "int j = i") (auto simp add: nth_list_update)
    finally show ?thesis .
  next
    case False
    then show ?thesis
      by (subst GameEngineFastRSqrt_fill.simps) auto
  qed
qed

lemma GameEngineFastRSqrt_ctor_nth:
  "length raw = 16 \<Longrightarrow> i < 16 \<Longrightarrow>
     correction_lut (GameEngineFastRSqrt_ctor raw) ! i = GameEngineFastRSqrt_entry (int i)"
  by (simp add: GameEngineFastRSqrt_ctor_def GameEngineFastRSqrt_fill_nth)

lemma FastRecipSqrt_fill_length [simp]: "length (FastRecipSqrt_fill i t) = length t"
  by (induction i t rule: FastRecipSqrt_fill.induct) (subst FastRecipSqrt_fill.simps, simp)

lemma FastRecipSqrt_fill_nth:
  "0 \<le> i \<Longrightarrow> j < length t \<Longrightarrow>
     FastRecipSqrt_fill i t ! j
       = (if i \<le> int j \<and> int j < LUT_SIZE then FastRecipSqrt_entry (int j) else t ! j)"
proof (induction i t rule: FastRecipSqrt_fill.induct)
  case (1 i t)
  show ?case
  proof (cases "i < LUT_SIZE")
    case True
    have "FastRecipSqrt_fill i t ! j = FastRecipSqrt_fill (i + 1) (t[nat i := FastRecipSqrt_entry i]) ! j"
      using True by (subst FastRecipSqrt_fill.simps) simp
    also have "\<dots> = (if i + 1 \<le> int j \<and> int j < LUT_SIZE then FastRecipSqrt_entry (int j)
                      else t[nat i := FastRecipSqrt_entry i] ! j)"
      using 1 True by simp
    also have "\<dots> = (if i \<le> int j \<and> int j < LUT_SIZE then FastRecipSqrt_entry (int j) else t ! j)"
      using 1(2,3) True by (cases "int j = i") (auto simp add: nth_list_update)
    finally show ?thesis .
  next
    case False
    then show ?thesis
      by (subst FastRecipSqrt_fill.simps) auto
  qed
qed

lemma FastRecipSqrt_ctor_nth:
  "length raw = 256 \<Longrightarrow> i < 256 \<Longrightarrow>
     lut (FastRecipSqrt_ctor raw) ! i = FastRecipSqrt_entry (int i)"
  by (simp add: FastRecipSqrt_ctor_def FastRecipSqrt_fill_nth LUT_SIZE_def)

text \<open>
  Claim C9, as the code has it. Entry \<open>i\<close> of the 16-entry table of
  \<open>GameEngineFastRSqrt\<close> is \<open>(1 / sqrtf x) / Q_rsqrt x\<close> at \<open>x = 0.0625 * i + 0.25\<close>, with
  the one-step Quake kernel \<open>Q_rsqrt\<close> (constant \<open>0x5f3759df\<close>) in the denominator, not the
  class's own \<open>compute\<close>; entry \<open>k\<close> of the 256-entry table of \<open>FastRecipSqrt\<close> is
  \<open>(1 / sqrtf (1 + k / 256)) / (1 / sqrtf 1.5)\<close>, with the constant base approximation
  \<open>1 / sqrtf 1.5\<close> in the denominator. Both tables are filled by the constructor, whatever
  the storage held before, and \<open>compute\<close> and the normalising methods leave the object
  as it was.
\<close>

theorem correction_tables_built_once:
  assumes "length raw16 = 16" and "length raw256 = 256" and "i < 16" and "k < 256"
  shows "correction_lut (GameEngineFastRSqrt_ctor raw16) ! i
           = f32_div (f32_div lit_1_0f
                        (f32_sqrt (f32_add (f32_mul lit_0_0625f (f32_of_int (int i))) lit_0_25f)))
                     (Q_rsqrt (f32_add (f32_mul lit_0_0625f (f32_of_int (int i))) lit_0_25f))
       \<and> lut (FastRecipSqrt_ctor raw256) ! k
           = f32_div (f32_div lit_1_0f
                        (f32_sqrt (f32_add lit_1_0f (f32_div (f32_of_int (int k)) (f32_of_int 256)))))
                     (f32_div lit_1_0f (f32_sqrt lit_1_5f))
       \<and> length (correction_lut (GameEngineFastRSqrt_ctor raw16)) = 16
       \<and> length (lut (FastRecipSqrt_ctor raw256)) = 256
       \<and> snd (GameEngineFastRSqrt_compute g x) = g
       \<and> snd (GameEngineFastRSqrt_normalize_vec3 g v) = g
       \<and> snd (FastRecipSqrt_compute f x) = f
       \<and> snd (FastRecipSqrt_normalize_vector f v) = f"
proof -
  have "length (correction_lut (GameEngineFastRSqrt_ctor raw16)) = 16"
    and "length (lut (FastRecipSqrt_ctor raw256)) = 256"
    using assms by (simp_all add: GameEngineFastRSqrt_ctor_def FastRecipSqrt_ctor_def)
  then show ?thesis
    using assms
    by (simp add: GameEngineFastRSqrt_ctor_nth FastRecipSqrt_ctor_nth GameEngineFastRSqrt_entry_def
        FastRecipSqrt_entry_def LUT_SIZE_def GameEngineFastRSqrt_compute_def
        GameEngineFastRSqrt_normalize_vec3_def FastRecipSqrt_compute_def
        FastRecipSqrt_normalize_vector_def Let_def split_def)
qed

theorem correction_tables_built_once_witness:
  "length (replicate 16 (0 :: f32)) = 16 \<and> length (replicate 256 (0 :: f32)) = 256
   \<and> (3 :: nat) < 16 \<and> (200 :: nat) < 256
   \<and> correction_lut (GameEngineFastRSqrt_ctor (replicate 16 0)) ! 3
       = f32_div (f32_div lit_1_0f
                    (f32_sqrt (f32_add (f32_mul lit_0_0625f (f32_of_int (int 3))) lit_0_25f)))
                 (Q_rsqrt (f32_add (f32_mul lit_0_0625f (f32_of_int (int 3))) lit_0_25f))
   \<and> lut (FastRecipSqrt_ctor (replicate 256 0)) ! 200
       = f32_div (f32_div lit_1_0f
                    (f32_sqrt (f32_add lit_1_0f (f32_div (f32_of_int (int 200)) (f32_of_int 256)))))
                 (f32_div lit_1_0f (f32_sqrt lit_1_5f))
   \<and> snd (FastRecipSqrt_compute (FastRecipSqrt_ctor (replicate 256 0)) lit_4_0f)
       = FastRecipSqrt_ctor (replicate 256 0)"
proof -
  have h1: "length (replicate 16 (0 :: f32)) = 16" and h2: "length (replicate 256 (0 :: f32)) = 256"
    and h3: "(3 :: nat) < 16" and h4: "(200 :: nat) < 256"
    by simp_all
  show ?thesis
    using correction_tables_built_once [OF h1 h2 h3 h4, of "GameEngineFastRSqrt_ctor (replicate 16 0)"
        lit_4_0f "[]" "FastRecipSqrt_ctor (replicate 256 0)"] h1 h2 h3 h4
    by blast
qed

text \<open>
  The claim as the specification states it fails on both tables. For \<open>FastRecipSqrt\<close>,
  entry 0 (representative \<open>1.0\<close>) is \<open>0x3F9CC471\<close> (about 1.2247), while the exact value
  divided by the kernel's own uncorrected guess at \<open>1.0\<close> is \<open>0x3F84796D\<close> (about
  1.0349). For \<open>GameEngineFastRSqrt\<close>, entry 0 (representative \<open>0.25\<close>) is \<open>0x3F803791\<close>,
  while the ratio to the class's own guess is \<open>0x3F84796D\<close> and the ratio to its own
  \<open>compute\<close> is \<open>0x3F800024\<close>.
\<close>

lemma FastRecipSqrt_entry_0: "FastRecipSqrt_entry 0 = 0x3F9CC471"
  by (simp add: FastRecipSqrt_entry_def LUT_SIZE_def f32_eval lit_defs cong: let_weak_cong)

lemma GameEngineFastRSqrt_entry_0: "GameEngineFastRSqrt_entry 0 = 0x3F803791"
  by (simp add: GameEngineFastRSqrt_entry_def Q_rsqrt_def Q_rsqrt_guess_def f32_eval lit_defs
      cong: let_weak_cong)

lemma exact_over_guess_1: 
  "f32_div (f32_div lit_1_0f (f32_sqrt lit_1_0f)) (FastRecipSqrt_guess lit_1_0f) = 0x3F84796D"
  by (simp add: FastRecipSqrt_guess_def MAGIC_CONSTANT_def f32_eval lit_defs)

lemma exact_over_guess_quarter: 
  "f32_div (f32_div lit_1_0f (f32_sqrt lit_0_25f)) (GameEngineFastRSqrt_guess lit_0_25f) = 0x3F84796D"
  by (simp add: GameEngineFastRSqrt_guess_def MAGIC_CONSTANT_def f32_eval lit_defs)

lemma GameEngineFastRSqrt_compute_quarter:
  "fst (GameEngineFastRSqrt_compute g lit_0_25f) = 0x3FFFFFB9"
  by (simp add: GameEngineFastRSqrt_compute_def GameEngineFastRSqrt_guess_def MAGIC_CONSTANT_def
      NR_CONSTANT_1_def NR_CONSTANT_2_def f32_eval lit_defs cong: let_weak_cong)

lemma exact_over_compute_quarter:
  "f32_div (f32_div lit_1_0f (f32_sqrt lit_0_25f)) 0x3FFFFFB9 = 0x3F800024"
  by (simp add: f32_eval lit_defs)

theorem correction_table_counterexample:
  "lut (FastRecipSqrt_ctor (replicate 256 0)) ! 0 = 0x3F9CC471
   \<and> f32_div (f32_div lit_1_0f (f32_sqrt lit_1_0f)) (FastRecipSqrt_guess lit_1_0f) = 0x3F84796D
   \<and> lut (FastRecipSqrt_ctor (replicate 256 0)) ! 0
       \<noteq> f32_div (f32_div lit_1_0f (f32_sqrt lit_1_0f)) (FastRecipSqrt_guess lit_1_0f)
   \<and> correction_lut (GameEngineFastRSqrt_ctor (replicate 16 0)) ! 0 = 0x3F803791
   \<and> correction_lut (GameEngineFastRSqrt_ctor (replicate 16 0)) ! 0
       \<noteq> f32_div (f32_div lit_1_0f (f32_sqrt lit_0_25f)) (GameEngineFastRSqrt_guess lit_0_25f)
   \<and> correction_lut (GameEngineFastRSqrt_ctor (replicate 16 0)) ! 0
       \<noteq> f32_div (f32_div lit_1_0f (f32_sqrt lit_0_25f))
            (fst (GameEngineFastRSqrt_compute (GameEngineFastRSqrt_ctor (replicate 16 0)) lit_0_25f))"
  by (simp add: FastRecipSqrt_ctor_nth GameEngineFastRSqrt_ctor_nth FastRecipSqrt_entry_0
      GameEngineFastRSqrt_entry_0 exact_over_guess_1 exact_over_guess_quarter
      GameEngineFastRSqrt_compute_quarter exact_over_compute_quarter)

section \<open>Facts about the arithmetic\<close>

lemma unat_f32_pack:
  assumes "b < 2 ^ 31"
  shows "unat (f32_pack s b) = b + (if s then 2 ^ 31 else 0)"
proof -
  have "unat (of_nat b :: 32 word) = b"
    using assms by (simp add: unat_of_nat)
  moreover have "unat (0x80000000 :: 32 word) = 2 ^ 31"
    by simp
  ultimately show ?thesis
    using assms by (simp add: f32_pack_def unat_word_ariths)
qed

lemma f32_pack_fields:
  assumes "b < 2 ^ 31"
  shows "f32_sign (f32_pack s b) = s"
    and "f32_expo (f32_pack s b) = b div 2 ^ 23"
    and "f32_frac (f32_pack s b) = b mod 2 ^ 23"
proof -
  have u: "unat (f32_pack s b) = b + (if s then 2147483648 else 0)"
    using unat_f32_pack [OF assms, of s] by simp
  have d: "b div 8388608 < 256"
    using assms by simp
  show "f32_sign (f32_pack s b) = s"
    using assms by (simp add: f32_sign_def u)
  have "(b + 2147483648) div 8388608 = b div 8388608 + 256"
    by simp
  then show "f32_expo (f32_pack s b) = b div 2 ^ 23"
    using d by (simp add: f32_expo_def u)
  have "(b + 2147483648) mod 8388608 = b mod 8388608"
    using mod_mult_self1 [of b 256 8388608] by simp
  then show "f32_frac (f32_pack s b) = b mod 2 ^ 23"
    by (simp add: f32_frac_def u)
qed

text \<open>Rounding never produces a NaN: an overflow becomes infinity.\<close>

lemma f32_finish_not_nan: "\<not> is_nan (f32_finish s b)"
proof -
  define c where "c = (if 255 * 2 ^ 23 \<le> b then 255 * 2 ^ 23 else b)"
  have c: "c \<le> 255 * 2 ^ 23"
    by (simp add: c_def)
  then have lt: "c < 2 ^ 31"
    by simp
  have h: "c div 2 ^ 23 = 255 \<longrightarrow> c mod 2 ^ 23 = 0"
  proof
    assume "c div 2 ^ 23 = 255"
    then have "255 * 2 ^ 23 \<le> c"
      by simp
    with c have "c = 255 * 2 ^ 23"
      by simp
    then show "c mod 2 ^ 23 = 0"
      by simp
  qed
  have "f32_expo (f32_pack s c) = c div 2 ^ 23" and "f32_frac (f32_pack s c) = c mod 2 ^ 23"
    by (rule f32_pack_fields [OF lt])+
  with h show ?thesis
    unfolding f32_finish_def c_def [symmetric] is_nan_def by auto
qed

lemma f32_pack_0_not_nan: "\<not> is_nan (f32_pack s 0)"
  by (cases s) (simp_all add: f32_eval)

lemma f32_pack_inf_not_nan: "\<not> is_nan (f32_pack s 2139095040)"
  by (cases s) (simp_all add: f32_eval)

lemma f32_round_not_nan: "\<not> is_nan (f32_round s m e)"
  by (simp add: f32_round_def f32_round_q_def f32_finish_not_nan f32_pack_0_not_nan)

lemma f32_mul_not_nan:
  assumes "\<not> is_nan a" and "\<not> is_nan b"
    and "\<not> (is_inf a \<and> is_zero b)" and "\<not> (is_zero a \<and> is_inf b)"
  shows "\<not> is_nan (f32_mul a b)"
  using assms by (auto simp add: f32_mul_def f32_round_not_nan f32_pack_inf_not_nan)

lemma is_finite_not_nan_inf: "is_finite a \<Longrightarrow> \<not> is_nan a \<and> \<not> is_inf a"
  by (simp add: is_finite_def is_nan_def is_inf_def)

lemma f32_mul_finite_not_nan: "is_finite a \<Longrightarrow> is_finite b \<Longrightarrow> \<not> is_nan (f32_mul a b)"
  by (intro f32_mul_not_nan) (simp_all add: is_finite_not_nan_inf)

text \<open>The two zeros.\<close>

lemma is_zero_cases:
  assumes "is_zero c"
  shows "c = 0 \<or> c = 0x80000000"
proof -
  from assms have e: "unat c div 8388608 mod 256 = 0" and f: "unat c mod 8388608 = 0"
    by (simp_all add: is_zero_def f32_expo_def f32_frac_def)
  have "unat c mod 2147483648 = 8388608 * (unat c div 8388608 mod 256) + unat c mod 8388608"
    using mod_mult2_eq [of "unat c" 8388608 256] by simp
  with e f have m: "unat c mod 2 ^ 31 = 0"
    by simp
  have "unat c = 0 \<or> unat c = 2 ^ 31"
    using unat_32_split [of c] m by (simp split: if_splits)
  then show ?thesis
  proof
    assume "unat c = 0"
    then show ?thesis by (simp add: unat_eq_0)
  next
    assume "unat c = 2 ^ 31"
    then have "unat c = unat (0x80000000 :: 32 word)" by simp
    then have "c = 0x80000000" using word_unat_eq_iff by blast
    then show ?thesis by simp
  qed
qed

section \<open>Normalising a degenerate vector\<close>

lemma zero_squares:
  "f32_mul 0 0 = 0" "f32_mul 0x80000000 0x80000000 = 0" "f32_add 0 0 = 0"
  by (simp_all add: f32_eval)

lemma norm_sq_of_zero_vector:
  assumes "is_zero a" and "is_zero b" and "is_zero c"
  shows "norm_sq_of [a, b, c] = 0"
  using is_zero_cases [OF assms(1)] is_zero_cases [OF assms(2)] is_zero_cases [OF assms(3)]
  by (auto simp add: norm_sq_of_def zero_squares)

lemma GameEngineFastRSqrt_compute_zero:
  "fst (GameEngineFastRSqrt_compute this 0) = 0x5FCE45F7"
  "fst (GameEngineFastRSqrt_compute this 0x80000000) = 0x1FCE45F7"
  by (simp_all add: GameEngineFastRSqrt_compute_def GameEngineFastRSqrt_guess_def
      MAGIC_CONSTANT_def NR_CONSTANT_1_def NR_CONSTANT_2_def f32_eval lit_defs
      cong: let_weak_cong)

lemma zero_times_inv_norm:
  "f32_mul 0 0x5FCE45F7 = 0" "f32_mul 0x80000000 0x5FCE45F7 = 0x80000000"
  by (simp_all add: f32_eval)

lemma inv_norm_finite: "is_finite 0x5FCE45F7" "is_finite 0x1FCE45F7"
  by (simp_all add: f32_eval)

lemma GameEngineFastRSqrt_normalize_vec3_list:
  "fst (GameEngineFastRSqrt_normalize_vec3 this [a, b, c])
     = [f32_mul a (fst (GameEngineFastRSqrt_compute this (norm_sq_of [a, b, c]))),
        f32_mul b (fst (GameEngineFastRSqrt_compute this (norm_sq_of [a, b, c]))),
        f32_mul c (fst (GameEngineFastRSqrt_compute this (norm_sq_of [a, b, c])))]"
  by (simp add: GameEngineFastRSqrt_normalize_vec3_def Let_def split_def)

lemma length_3_list: "length v = 3 \<Longrightarrow> v = [v ! 0, v ! 1, v ! 2]"
  by (cases v; cases "tl v"; cases "tl (tl v)") auto

text \<open>
  Claim C8. On the zero vector \<open>normalize_vec3\<close> does not produce NaN components: each
  component, \<open>+0.0\<close> or \<open>-0.0\<close>, comes back as it was, so that
  \<open>normalize (0, 0, 0) = (0, 0, 0)\<close>. More generally, whenever the computed squared
  length \<open>len_sq\<close> of a vector of finite floats is zero (also by underflow), no component
  of the result is a NaN.
\<close>

theorem normalize_vec3_zero_vector:
  assumes "length v = 3"
  shows "(list_all is_zero v \<longrightarrow> fst (GameEngineFastRSqrt_normalize_vec3 this v) = v)
       \<and> (list_all is_finite v \<and> is_zero (norm_sq_of v)
            \<longrightarrow> list_all (\<lambda>c. \<not> is_nan c) (fst (GameEngineFastRSqrt_normalize_vec3 this v)))"
proof -
  obtain a b c where v: "v = [a, b, c]"
    using length_3_list [OF assms] by blast
  have "fst (GameEngineFastRSqrt_normalize_vec3 this v) = v" if "list_all is_zero v"
  proof -
    from that have z: "is_zero a" "is_zero b" "is_zero c"
      by (simp_all add: v)
    have n: "norm_sq_of [a, b, c] = 0"
      by (rule norm_sq_of_zero_vector [OF z])
    show ?thesis
      using is_zero_cases [OF z(1)] is_zero_cases [OF z(2)] is_zero_cases [OF z(3)]
      by (auto simp add: v GameEngineFastRSqrt_normalize_vec3_list n
          GameEngineFastRSqrt_compute_zero zero_times_inv_norm)
  qed
  moreover have "list_all (\<lambda>c. \<not> is_nan c) (fst (GameEngineFastRSqrt_normalize_vec3 this v))"
    if "list_all is_finite v" and "is_zero (norm_sq_of v)"
  proof -
    from that(1) have f: "is_finite a" "is_finite b" "is_finite c"
      by (simp_all add: v)
    define k where "k = fst (GameEngineFastRSqrt_compute this (norm_sq_of [a, b, c]))"
    have "is_finite k"
      using is_zero_cases [OF that(2)]
      by (auto simp add: k_def v GameEngineFastRSqrt_compute_zero inv_norm_finite)
    then show ?thesis
      using f by (simp add: v GameEngineFastRSqrt_normalize_vec3_list k_def [symmetric]
          f32_mul_finite_not_nan)
  qed
  ultimately show ?thesis
    by blast
qed

theorem normalize_vec3_zero_vector_witness:
  "length [0, 0, 0 :: f32] = 3
   \<and> list_all is_zero [0, 0, 0 :: f32]
   \<and> fst (GameEngineFastRSqrt_normalize_vec3 (GameEngineFastRSqrt_ctor (replicate 16 0)) [0, 0, 0])
       = [0, 0, 0]
   \<and> list_all is_finite [0x1A000000, 0, 0x80000000] \<and> is_zero (norm_sq_of [0x1A000000, 0, 0x80000000])
   \<and> list_all (\<lambda>c. \<not> is_nan c)
        (fst (GameEngineFastRSqrt_normalize_vec3 (GameEngineFastRSqrt_ctor (replicate 16 0))
               [0x1A000000, 0, 0x80000000]))"
proof -
  have l: "length [0, 0, 0 :: f32] = 3" "length [0x1A000000, 0, 0x80000000 :: f32] = 3"
    by simp_all
  have z: "list_all is_zero [0, 0, 0 :: f32]"
    by (simp add: f32_eval)
  have f: "list_all is_finite [0x1A000000, 0, 0x80000000]"
    by (simp add: f32_eval)
  have n: "is_zero (norm_sq_of [0x1A000000, 0, 0x80000000])"
    by (simp add: norm_sq_of_def f32_eval)
  show ?thesis
    using normalize_vec3_zero_vector [OF l(1), of "GameEngineFastRSqrt_ctor (replicate 16 0)"]
      normalize_vec3_zero_vector [OF l(2), of "GameEngineFastRSqrt_ctor (replicate 16 0)"]
      l z f n
    by blast
qed

subsection \<open>Negation\<close>

lemma unat_f32_neg:
  "unat (f32_neg w) = (if f32_sign w then unat w - 2147483648 else unat w + 2147483648)"
proof -
  have lt: "unat w < 4294967296"
    using unsigned_less [of w, where ?'a = nat] by simp
  have e: "unat (f32_neg w) = (unat w + 2147483648) mod 4294967296"
    by (simp add: f32_neg_add unat_word_ariths)
  show ?thesis
  proof (cases "f32_sign w")
    case True
    then have g: "2147483648 \<le> unat w"
      by (simp add: f32_sign_def)
    define r where "r = unat w - 2147483648"
    have r: "unat w = r + 2147483648" "r < 2147483648"
      using g lt by (simp_all add: r_def)
    have "(r + 2147483648 + 2147483648) mod 4294967296 = r"
      using r(2) by simp
    then show ?thesis
      using True by (simp add: e r)
  next
    case False
    then show ?thesis
      by (simp add: e f32_sign_def)
  qed
qed

lemma f32_neg_fields:
  "f32_sign (f32_neg w) = (\<not> f32_sign w)"
  "f32_expo (f32_neg w) = f32_expo w"
  "f32_frac (f32_neg w) = f32_frac w"
proof -
  have lt: "unat w < 4294967296"
    using unsigned_less [of w, where ?'a = nat] by simp
  define r where "r = unat w - 2147483648"
  have r: "unat w = r + 2147483648" if "f32_sign w"
    using that by (simp add: r_def f32_sign_def)
  show "f32_sign (f32_neg w) = (\<not> f32_sign w)"
    using lt by (auto simp add: unat_f32_neg f32_sign_def)
  have d: "(n + 2147483648) div 8388608 = n div 8388608 + 256"
    and m: "(n + 2147483648) mod 8388608 = n mod 8388608" for n :: nat
    using mod_mult_self1 [of n 256 8388608] by simp_all
  show "f32_expo (f32_neg w) = f32_expo w"
  proof (cases "f32_sign w")
    case True
    then show ?thesis
      by (simp add: f32_expo_def unat_f32_neg r [OF True] d)
  next
    case False
    then show ?thesis
      by (simp add: f32_expo_def unat_f32_neg d)
  qed
  show "f32_frac (f32_neg w) = f32_frac w"
  proof (cases "f32_sign w")
    case True
    then show ?thesis
      by (simp add: f32_frac_def unat_f32_neg r [OF True] m)
  next
    case False
    then show ?thesis
      by (simp add: f32_frac_def unat_f32_neg m)
  qed
qed

lemma f32_neg_class [simp]:
  "is_nan (f32_neg w) = is_nan w" "is_inf (f32_neg w) = is_inf w" "is_zero (f32_neg w) = is_zero w"
  "f32_mant (f32_neg w) = f32_mant w" "f32_scale (f32_neg w) = f32_scale w"
  by (simp_all add: is_nan_def is_inf_def is_zero_def f32_mant_def f32_scale_def f32_neg_fields)

lemma f32_neg_sval: "f32_sval (f32_neg w) = - f32_sval w"
  by (simp add: f32_sval_def f32_neg_fields f32_neg_class)






section \<open>Vector registers\<close>

text \<open>
  A \<open>__m128\<close>, \<open>__m256\<close> or \<open>__m512\<close> register is the list of its 4, 8 or 16 lanes
  (lane 0 first), and \<open>__m256i\<close> the same lanes read as integers. Every intrinsic the
  sources use works lane by lane. The hardware estimate behind \<open>_mm_rsqrt_ss\<close> and
  \<open>_mm256_rsqrt_ps\<close> is not fixed bit for bit by the architecture; it is a parameter
  \<open>hw\<close> of the functions that use it.
\<close>

type_synonym lanes = "f32 list"

definition mm_set1_ps :: "nat \<Rightarrow> f32 \<Rightarrow> lanes" where
  "mm_set1_ps W c = replicate W c"

definition mm_set1_epi32 :: "nat \<Rightarrow> 32 word \<Rightarrow> lanes" where
  "mm_set1_epi32 W c = replicate W c"

definition mm_mul_ps :: "lanes \<Rightarrow> lanes \<Rightarrow> lanes" where
  "mm_mul_ps a b = map2 f32_mul a b"

definition mm_add_ps :: "lanes \<Rightarrow> lanes \<Rightarrow> lanes" where
  "mm_add_ps a b = map2 f32_add a b"

definition mm_sub_ps :: "lanes \<Rightarrow> lanes \<Rightarrow> lanes" where
  "mm_sub_ps a b = map2 f32_sub a b"

definition mm_fmadd_ps :: "lanes \<Rightarrow> lanes \<Rightarrow> lanes \<Rightarrow> lanes" where
  "mm_fmadd_ps a b c = map (\<lambda>(x, y, z). f32_fma x y z) (zip a (zip b c))"

definition mm_fnmadd_ps :: "lanes \<Rightarrow> lanes \<Rightarrow> lanes \<Rightarrow> lanes" where
  "mm_fnmadd_ps a b c = map (\<lambda>(x, y, z). f32_fnmadd x y z) (zip a (zip b c))"

definition mm_srli_epi32 :: "lanes \<Rightarrow> nat \<Rightarrow> lanes" where
  "mm_srli_epi32 a n = map (drop_bit n) a"

definition mm_sub_epi32 :: "lanes \<Rightarrow> lanes \<Rightarrow> lanes" where
  "mm_sub_epi32 a b = map2 (-) a b"

definition mm_and_si :: "lanes \<Rightarrow> lanes \<Rightarrow> lanes" where
  "mm_and_si a b = map2 (AND) a b"

definition mm_rsqrt_ps :: "(f32 \<Rightarrow> f32) \<Rightarrow> lanes \<Rightarrow> lanes" where
  "mm_rsqrt_ps hw a = map hw a"

lemmas mm_defs = mm_set1_ps_def mm_set1_epi32_def mm_mul_ps_def mm_add_ps_def mm_sub_ps_def
  mm_fmadd_ps_def mm_fnmadd_ps_def mm_srli_epi32_def mm_sub_epi32_def mm_and_si_def
  mm_rsqrt_ps_def

section \<open>\<open>hybrid_vector_rsqrt.cpp\<close>\<close>

definition MAGIC_SMALL :: "32 word" where
  "MAGIC_SMALL = 0x5f375a86"

definition MAGIC_NORMAL :: "32 word" where
  "MAGIC_NORMAL = 0x5f3759df"

definition MAGIC_LARGE :: "32 word" where
  "MAGIC_LARGE = 0x5f37599e"

text \<open>The file-level \<open>static float rsqrt_lut[256]\<close> and \<open>static bool lut_initialized\<close>;
  static storage starts zeroed.\<close>

record hybrid_globals =
  rsqrt_lut :: "f32 list"
  lut_initialized :: bool

definition hybrid_globals_static :: hybrid_globals where
  "hybrid_globals_static = \<lparr> rsqrt_lut = replicate 256 0, lut_initialized = False \<rparr>"

definition rsqrt_lut_entry :: "int \<Rightarrow> f32" where
  "rsqrt_lut_entry i =
     (let val = f32_add lit_0_5f (f32_div (f32_mul (f32_of_int i) lit_3_5f) lit_255_0f)
      in f32_div lit_1_0f (f32_sqrt val))"

function rsqrt_lut_fill :: "int \<Rightarrow> f32 list \<Rightarrow> f32 list" where
  "rsqrt_lut_fill i t =
     (if i < 256 then rsqrt_lut_fill (i + 1) (t[nat i := rsqrt_lut_entry i]) else t)"
  by pat_completeness auto

termination
  by (relation "measure (\<lambda>(i, t). nat (256 - i))") auto

declare rsqrt_lut_fill.simps [simp del]

definition initialize_lut :: "hybrid_globals \<Rightarrow> hybrid_globals" where
  "initialize_lut G =
     (if \<not> lut_initialized G
      then G \<lparr> rsqrt_lut := rsqrt_lut_fill 0 (rsqrt_lut G), lut_initialized := True \<rparr>
      else G)"

text \<open>\<open>(int)((number - 0.5f) * 255.0f / 3.5f)\<close>\<close>

definition hybrid_rsqrt_idx :: "f32 \<Rightarrow> int" where
  "hybrid_rsqrt_idx number =
     f32_to_int (f32_div (f32_mul (f32_sub number lit_0_5f) lit_255_0f) lit_3_5f)"

text \<open>\<open>hybrid_rsqrt\<close>; \<open>fma\<close> tells whether the build defines \<open>__FMA__\<close>. In the fused
  branch \<open>-x2 * y\<close> negates \<open>x2\<close> before the multiplication.\<close>

definition hybrid_rsqrt :: "bool \<Rightarrow> hybrid_globals \<Rightarrow> f32 \<Rightarrow> f32" where
  "hybrid_rsqrt fma G number =
     (if f32_le lit_0_5f number \<and> f32_le number lit_4_0f
         \<and> 0 \<le> hybrid_rsqrt_idx number \<and> hybrid_rsqrt_idx number < 256
      then rsqrt_lut G ! nat (hybrid_rsqrt_idx number)
      else
        (let magic = (if f32_lt number lit_1_0f then MAGIC_SMALL
                      else if f32_lt lit_100_0f number then MAGIC_LARGE
                      else MAGIC_NORMAL);
             y = magic - drop_bit 1 number;
             x2 = f32_mul number lit_0_5f
         in if fma
            then (let y = f32_mul y (f32_fma (f32_mul (f32_neg x2) y) y lit_1_5f);
                      y = f32_mul y (f32_fma (f32_mul (f32_neg x2) y) y lit_1_5f)
                  in y)
            else (let y = f32_mul y (f32_sub lit_1_5f (f32_mul (f32_mul x2 y) y));
                      y = f32_mul y (f32_sub lit_1_5f (f32_mul (f32_mul x2 y) y))
                  in y)))"

text \<open>The body of the vector loop of \<open>hybrid_rsqrt_simd\<close>: from the register loaded to
  the register stored.\<close>

definition hybrid_rsqrt_simd_body :: "bool \<Rightarrow> lanes \<Rightarrow> lanes" where
  "hybrid_rsqrt_simd_body fma x =
     (let half = mm_set1_ps 8 lit_0_5f;
          three_halves = mm_set1_ps 8 lit_1_5f;
          xi = x;
          xi = mm_srli_epi32 xi 1;
          xi = mm_sub_epi32 (mm_set1_epi32 8 MAGIC_NORMAL) xi;
          y = xi;
          x_half = mm_mul_ps x half
      in if fma
         then (let tmp = mm_fnmadd_ps (mm_mul_ps x_half y) y three_halves;
                   y = mm_mul_ps y tmp;
                   tmp = mm_fnmadd_ps (mm_mul_ps x_half y) y three_halves;
                   y = mm_mul_ps y tmp
               in y)
         else (let y_squared = mm_mul_ps y y;
                   tmp = mm_mul_ps x_half y_squared;
                   tmp = mm_sub_ps three_halves tmp;
                   y = mm_mul_ps y tmp;
                   y_squared = mm_mul_ps y y;
                   tmp = mm_mul_ps x_half y_squared;
                   tmp = mm_sub_ps three_halves tmp;
                   y = mm_mul_ps y tmp
               in y))"

section \<open>\<open>ultra_optimized_rsqrt.cpp\<close>\<close>

text \<open>\<open>ultra_rsqrt\<close>; \<open>sse\<close> tells whether the build defines \<open>__SSE__\<close>.\<close>

definition ultra_rsqrt :: "bool \<Rightarrow> (f32 \<Rightarrow> f32) \<Rightarrow> f32 \<Rightarrow> f32" where
  "ultra_rsqrt sse hw x =
     (if sse
      then (let xmm = x;
                rsqrt = hw xmm;
                half = lit_0_5f;
                three_halves = lit_1_5f;
                x_half = f32_mul xmm half;
                rsqrt_sq = f32_mul rsqrt rsqrt;
                tmp = f32_mul x_half rsqrt_sq;
                tmp = f32_sub three_halves tmp;
                rsqrt = f32_mul rsqrt tmp
            in rsqrt)
      else (let y = 0x5f375a86 - drop_bit 1 x;
                y = f32_mul y (f32_sub lit_1_5f (f32_mul (f32_mul (f32_mul lit_0_5f x) y) y));
                y = f32_mul y (f32_sub lit_1_5f (f32_mul (f32_mul (f32_mul lit_0_5f x) y) y))
            in y))"

definition ultra_rsqrt_avx2_body :: "bool \<Rightarrow> (f32 \<Rightarrow> f32) \<Rightarrow> lanes \<Rightarrow> lanes" where
  "ultra_rsqrt_avx2_body fma hw x =
     (let half = mm_set1_ps 8 lit_0_5f;
          three_halves = mm_set1_ps 8 lit_1_5f;
          rsqrt = mm_rsqrt_ps hw x
      in if fma
         then (let x_half = mm_mul_ps x half;
                   tmp = mm_fnmadd_ps (mm_mul_ps x_half rsqrt) rsqrt three_halves;
                   rsqrt = mm_mul_ps rsqrt tmp
               in rsqrt)
         else (let x_half = mm_mul_ps x half;
                   rsqrt_sq = mm_mul_ps rsqrt rsqrt;
                   tmp = mm_mul_ps x_half rsqrt_sq;
                   tmp = mm_sub_ps three_halves tmp;
                   rsqrt = mm_mul_ps rsqrt tmp
               in rsqrt))"

section \<open>Lanes against the scalar path (LaneEvaluator)\<close>

text \<open>What one lane of the vector bodies computes, as a function of that lane alone.\<close>

definition hybrid_lane :: "bool \<Rightarrow> f32 \<Rightarrow> f32" where
  "hybrid_lane fma x =
     (let y = MAGIC_NORMAL - drop_bit 1 x;
          x_half = f32_mul x lit_0_5f
      in if fma
         then (let y = f32_mul y (f32_fnmadd (f32_mul x_half y) y lit_1_5f);
                   y = f32_mul y (f32_fnmadd (f32_mul x_half y) y lit_1_5f)
               in y)
         else (let y = f32_mul y (f32_sub lit_1_5f (f32_mul x_half (f32_mul y y)));
                   y = f32_mul y (f32_sub lit_1_5f (f32_mul x_half (f32_mul y y)))
               in y))"

lemma hybrid_rsqrt_simd_body_length [simp]:
  "length x = 8 \<Longrightarrow> length (hybrid_rsqrt_simd_body fma x) = 8"
  by (simp add: hybrid_rsqrt_simd_body_def mm_defs Let_def)

lemma hybrid_rsqrt_simd_body_nth:
  "length x = 8 \<Longrightarrow> k < 8 \<Longrightarrow> hybrid_rsqrt_simd_body fma x ! k = hybrid_lane fma (x ! k)"
  by (simp add: hybrid_rsqrt_simd_body_def hybrid_lane_def mm_defs Let_def)

lemma ultra_rsqrt_avx2_body_length [simp]:
  "length x = 8 \<Longrightarrow> length (ultra_rsqrt_avx2_body fma hw x) = 8"
  by (simp add: ultra_rsqrt_avx2_body_def mm_defs Let_def)

definition ultra_lane :: "bool \<Rightarrow> (f32 \<Rightarrow> f32) \<Rightarrow> f32 \<Rightarrow> f32" where
  "ultra_lane fma hw x =
     (if fma
      then f32_mul (hw x) (f32_fnmadd (f32_mul (f32_mul x lit_0_5f) (hw x)) (hw x) lit_1_5f)
      else f32_mul (hw x) (f32_sub lit_1_5f (f32_mul (f32_mul x lit_0_5f) (f32_mul (hw x) (hw x)))))"

lemma ultra_rsqrt_avx2_body_nth:
  "length x = 8 \<Longrightarrow> k < 8 \<Longrightarrow> ultra_rsqrt_avx2_body fma hw x ! k = ultra_lane fma hw (x ! k)"
  by (simp add: ultra_rsqrt_avx2_body_def ultra_lane_def mm_defs Let_def)





lemma rsqrt_lut_fill_length [simp]: "length (rsqrt_lut_fill i t) = length t"
  by (induction i t rule: rsqrt_lut_fill.induct) (subst rsqrt_lut_fill.simps, simp)








section \<open>Buffers and the batch loops (BatchKernel)\<close>

text \<open>
  The batch functions read \<open>input[i]\<close> and write \<open>output[i]\<close> through two pointers that
  may name the same buffer. Memory is a map from addresses, counted in floats, to floats;
  a pointer is an address, and \<open>&input[i]\<close> is \<open>inp + i\<close>.
\<close>

type_synonym memory = "nat \<Rightarrow> f32"

definition loadu_ps :: "nat \<Rightarrow> memory \<Rightarrow> nat \<Rightarrow> lanes" where
  "loadu_ps W mem p = map (\<lambda>k. mem (p + k)) [0..<W]"

definition storeu_ps :: "memory \<Rightarrow> nat \<Rightarrow> lanes \<Rightarrow> memory" where
  "storeu_ps mem p v = (\<lambda>a. if p \<le> a \<and> a < p + length v then v ! (a - p) else mem a)"

text \<open>
  \<open>for (size_t i = 0; i < simd_count; i += W) { x = loadu (&input[i]); ...;
  storeu (&output[i], y); }\<close> with the loop body from the loaded to the stored register
  as a parameter; \<open>W\<close> is 8 in every use. No \<open>i + W\<close> overflows, since \<open>simd_count\<close> is
  a multiple of \<open>W\<close> below \<open>2 ^ 64\<close>.
\<close>

function vector_loop ::
  "nat \<Rightarrow> (lanes \<Rightarrow> lanes) \<Rightarrow> nat \<Rightarrow> nat \<Rightarrow> nat \<Rightarrow> nat \<Rightarrow> memory \<Rightarrow> memory" where
  "vector_loop W body inp outp i simd_count mem =
     (if 0 < W \<and> i < simd_count
      then vector_loop W body inp outp (i + W) simd_count
             (storeu_ps mem (outp + i) (body (loadu_ps W mem (inp + i))))
      else mem)"
  by pat_completeness auto

termination
  by (relation "measure (\<lambda>(W, body, inp, outp, i, simd_count, mem). simd_count - i)") auto

declare vector_loop.simps [simp del]

text \<open>
  \<open>for (size_t i = simd_count; i < count; i++) output[i] = f (input[i]);\<close> where the
  scalar function may read and change a state \<open>s\<close> (the object it is a method of).
\<close>

function scalar_loop ::
  "('s \<Rightarrow> f32 \<Rightarrow> f32 \<times> 's) \<Rightarrow> nat \<Rightarrow> nat \<Rightarrow> nat \<Rightarrow> nat \<Rightarrow> 's \<times> memory \<Rightarrow> 's \<times> memory" where
  "scalar_loop f inp outp i count (s, mem) =
     (if i < count
      then scalar_loop f inp outp (i + 1) count
             (snd (f s (mem (inp + i))), mem (outp + i := fst (f s (mem (inp + i)))))
      else (s, mem))"
  by pat_completeness auto

termination
  by (relation "measure (\<lambda>(f, inp, outp, i, count, sm). count - i)") auto

declare scalar_loop.simps [simp del]

text \<open>\<open>count & ~7\<close> on a \<open>size_t\<close>.\<close>

definition simd_count_of :: "64 word \<Rightarrow> nat" where
  "simd_count_of count = unat (count AND NOT 7)"

subsection \<open>\<open>ultra_rsqrt_avx2\<close>\<close>

definition ultra_rsqrt_avx2 ::
  "bool \<Rightarrow> bool \<Rightarrow> (f32 \<Rightarrow> f32) \<Rightarrow> memory \<Rightarrow> nat \<Rightarrow> nat \<Rightarrow> 64 word \<Rightarrow> memory" where
  "ultra_rsqrt_avx2 sse fma hw mem inp outp count =
     (let simd_count = simd_count_of count;
          mem = vector_loop 8 (ultra_rsqrt_avx2_body fma hw) inp outp 0 simd_count mem
      in snd (scalar_loop (\<lambda>u x. (ultra_rsqrt sse hw x, u)) inp outp simd_count (unat count)
                ((), mem)))"

subsection \<open>\<open>hybrid_rsqrt_simd\<close>\<close>

definition hybrid_rsqrt_simd ::
  "bool \<Rightarrow> hybrid_globals \<Rightarrow> memory \<Rightarrow> nat \<Rightarrow> nat \<Rightarrow> 64 word \<Rightarrow> hybrid_globals \<times> memory" where
  "hybrid_rsqrt_simd fma G mem inp outp count =
     (let G = initialize_lut G;
          simd_count = simd_count_of count;
          mem = vector_loop 8 (hybrid_rsqrt_simd_body fma) inp outp 0 simd_count mem
      in scalar_loop (\<lambda>G x. (hybrid_rsqrt fma G x, G)) inp outp simd_count (unat count) (G, mem))"

subsection \<open>\<open>NeuralRsqrt\<close> (\<open>neural_inspired_rsqrt.cpp\<close>)\<close>

text \<open>The members of the class; \<open>global_precision\<close>, an atomic global, is passed to
  \<open>compute\<close> as the value it loads.\<close>

record NeuralRsqrt =
  input_history :: "f32 list"
  history_idx :: nat
  mean_input :: f32
  variance :: f32
  poly_lut :: "f32 list"

definition poly_lut_entry :: "int \<Rightarrow> f32" where
  "poly_lut_entry i =
     (let x = f32_add lit_0_25f (f32_div (f32_mul (f32_of_int i) lit_3_75f) lit_1023_0f);
          rsqrt_approx = f32_div lit_1_0f (f32_sqrt x)
      in rsqrt_approx)"

function poly_lut_fill :: "int \<Rightarrow> f32 list \<Rightarrow> f32 list" where
  "poly_lut_fill i t = (if i < 1024 then poly_lut_fill (i + 1) (t[nat i := poly_lut_entry i]) else t)"
  by pat_completeness auto

termination
  by (relation "measure (\<lambda>(i, t). nat (1024 - i))") auto

declare poly_lut_fill.simps [simp del]

text \<open>The constructor fills \<open>poly_lut\<close>; \<open>history_idx\<close>, \<open>mean_input\<close> and \<open>variance\<close> have
  default member initialisers, and \<open>input_history\<close> keeps what the storage held.\<close>

definition NeuralRsqrt_ctor :: "f32 list \<Rightarrow> f32 list \<Rightarrow> NeuralRsqrt" where
  "NeuralRsqrt_ctor raw_history raw_lut =
     \<lparr> input_history = raw_history, history_idx = 0, mean_input = lit_1_0f,
       variance = lit_1_0f, poly_lut = poly_lut_fill 0 raw_lut \<rparr>"

text \<open>The global instance \<open>static NeuralRsqrt neural_rsqrt\<close> is built on zeroed storage.\<close>

definition neural_rsqrt :: NeuralRsqrt where
  "neural_rsqrt = NeuralRsqrt_ctor (replicate 256 0) (replicate 1024 0)"

definition stats_step :: "f32 \<Rightarrow> f32 \<times> f32 \<Rightarrow> f32 \<times> f32" where
  "stats_step v = (\<lambda>(sum, sum_sq). (f32_add sum v, f32_add sum_sq (f32_mul v v)))"

definition update_stats :: "NeuralRsqrt \<Rightarrow> f32 \<Rightarrow> NeuralRsqrt" where
  "update_stats this inp =
     (let history = (input_history this)[history_idx this := inp];
          idx = (history_idx this + 1) mod 256;
          (sum, sum_sq) = fold stats_step (map (\<lambda>i. history ! i) [0..<256]) (lit_0_0f, lit_0_0f);
          mean = f32_div sum lit_256_0f;
          var = f32_sub (f32_div sum_sq lit_256_0f) (f32_mul mean mean)
      in this \<lparr> input_history := history, history_idx := idx, mean_input := mean,
                variance := var \<rparr>)"

text \<open>\<open>(int)((x - 0.25f) * 1023.0f / 3.75f)\<close>\<close>

definition NeuralRsqrt_idx :: "f32 \<Rightarrow> int" where
  "NeuralRsqrt_idx x = f32_to_int (f32_div (f32_mul (f32_sub x lit_0_25f) lit_1023_0f) lit_3_75f)"

definition NeuralRsqrt_compute ::
  "PrecisionLevel \<Rightarrow> NeuralRsqrt \<Rightarrow> f32 \<Rightarrow> f32 \<times> NeuralRsqrt" where
  "NeuralRsqrt_compute global_precision this x =
     (let this = update_stats this x;
          precision = global_precision;
          precision = (if f32_lt (variance this) lit_0_01f \<and> precision \<noteq> ULTRA_FAST
                       then ULTRA_FAST else precision)
      in if f32_le lit_0_25f x \<and> f32_le x lit_4_0f
            \<and> 0 \<le> NeuralRsqrt_idx x \<and> NeuralRsqrt_idx x < 1024
         then (let base = poly_lut this ! nat (NeuralRsqrt_idx x)
               in if precision = ULTRA_PRECISE then (base, this)
                  else (let x_half = f32_mul x lit_0_5f
                        in (f32_mul base (f32_sub lit_1_5f (f32_mul (f32_mul x_half base) base)),
                            this)))
         else (let y = NeuralRsqrt_guess x;
                   x2 = f32_mul x lit_0_5f;
                   err = f32_sub lit_1_0f (f32_mul (f32_mul x y) y);
                   y = f32_mul y (f32_add (poly_a magic_consts)
                         (f32_mul err (f32_add (poly_b magic_consts)
                            (f32_mul err (poly_c magic_consts)))))
               in (NeuralRsqrt_switch precision x x2 y, this)))"

definition NeuralRsqrt_compute_simd_body :: "lanes \<Rightarrow> lanes" where
  "NeuralRsqrt_compute_simd_body x =
     (let half = mm_set1_ps 8 lit_0_5f;
          three_halves = mm_set1_ps 8 lit_1_5f;
          pa = mm_set1_ps 8 (poly_a magic_consts);
          pb = mm_set1_ps 8 (poly_b magic_consts);
          pc = mm_set1_ps 8 (poly_c magic_consts);
          xi = x;
          exp = mm_and_si (mm_srli_epi32 xi 23) (mm_set1_epi32 8 0xFF);
          magic = mm_set1_epi32 8 (medium magic_consts);
          xi = mm_sub_epi32 magic (mm_srli_epi32 xi 1);
          y = xi;
          x_half = mm_mul_ps x half;
          y_sq = mm_mul_ps y y;
          err = mm_fnmadd_ps x y_sq (mm_set1_ps 8 lit_1_0f);
          poly = mm_fmadd_ps err pc pb;
          poly = mm_fmadd_ps err poly pa;
          y = mm_mul_ps y poly;
          tmp = mm_fnmadd_ps (mm_mul_ps x_half y) y three_halves;
          y = mm_mul_ps y tmp;
          tmp = mm_fnmadd_ps (mm_mul_ps x_half y) y three_halves;
          y = mm_mul_ps y tmp
      in y)"

definition NeuralRsqrt_compute_simd ::
  "PrecisionLevel \<Rightarrow> NeuralRsqrt \<Rightarrow> memory \<Rightarrow> nat \<Rightarrow> nat \<Rightarrow> 64 word \<Rightarrow> NeuralRsqrt \<times> memory" where
  "NeuralRsqrt_compute_simd global_precision this mem inp outp count =
     (let simd_count = simd_count_of count;
          mem = vector_loop 8 NeuralRsqrt_compute_simd_body inp outp 0 simd_count mem
      in scalar_loop (\<lambda>this x. NeuralRsqrt_compute global_precision this x) inp outp simd_count
           (unat count) (this, mem))"

text \<open>What one lane of the vector body computes.\<close>

definition NeuralRsqrt_lane :: "f32 \<Rightarrow> f32" where
  "NeuralRsqrt_lane x =
     (let y = medium magic_consts - drop_bit 1 x;
          x_half = f32_mul x lit_0_5f;
          err = f32_fnmadd x (f32_mul y y) lit_1_0f;
          poly = f32_fma err (poly_c magic_consts) (poly_b magic_consts);
          poly = f32_fma err poly (poly_a magic_consts);
          y = f32_mul y poly;
          y = f32_mul y (f32_fnmadd (f32_mul x_half y) y lit_1_5f);
          y = f32_mul y (f32_fnmadd (f32_mul x_half y) y lit_1_5f)
      in y)"

lemma NeuralRsqrt_compute_simd_body_nth:
  "length x = 8 \<Longrightarrow> k < 8 \<Longrightarrow> NeuralRsqrt_compute_simd_body x ! k = NeuralRsqrt_lane (x ! k)"
  by (simp add: NeuralRsqrt_compute_simd_body_def NeuralRsqrt_lane_def mm_defs Let_def)

lemma NeuralRsqrt_compute_simd_body_length [simp]:
  "length x = 8 \<Longrightarrow> length (NeuralRsqrt_compute_simd_body x) = 8"
  by (simp add: NeuralRsqrt_compute_simd_body_def mm_defs Let_def)

subsection \<open>What the loops leave in memory\<close>

lemma simd_count_of_eq: "simd_count_of count = unat count - unat count mod 8"
proof -
  define m where "m = (NOT 7 :: 64 word)"
  have b7: "bit (7 :: 64 word) n \<longleftrightarrow> n < 3" for n
  proof -
    have "(7 :: 64 word) = mask 3"
      by (simp add: mask_eq_exp_minus_1)
    then show ?thesis
      by (simp only: bit_mask_iff) auto
  qed
  have bm: "bit m n \<longleftrightarrow> n < 64 \<and> 3 \<le> n" for n
    unfolding m_def by (simp only: bit_not_iff b7) auto
  have "bit (count AND m) n = bit (push_bit 3 (drop_bit 3 count)) n" for n
  proof (cases "3 \<le> n")
    case True
    then have "3 + (n - 3) = n"
      by simp
    then show ?thesis
      using True bit_imp_le_length [of count n]
      by (auto simp add: bit_and_iff bm bit_push_bit_iff bit_drop_bit_eq)
  next
    case False
    then show ?thesis
      by (simp add: bit_and_iff bm bit_push_bit_iff)
  qed
  then have "count AND m = push_bit 3 (drop_bit 3 count)"
    by (intro bit_eqI) simp
  then have "unat (count AND m) = unat (push_bit 3 (drop_bit 3 count))"
    by simp
  also have "\<dots> = take_bit 64 (push_bit 3 (drop_bit 3 (unat count)))"
  proof -
    have "unat count < 2 ^ 64"
      using unsigned_less [of count, where ?'a = nat] by simp
    then have "take_bit 64 (unat count) = unat count"
      by (simp add: take_bit_nat_eq_self_iff)
    then show ?thesis
      by (simp add: unsigned_push_bit_eq unsigned_drop_bit_eq)
  qed
  also have "\<dots> = 8 * (unat count div 8)"
  proof -
    have "unat count < 2 ^ 64"
      using unsigned_less [of count, where ?'a = nat] by simp
    then have "8 * (unat count div 8) < 2 ^ 64"
      by simp
    then show ?thesis
      by (simp add: push_bit_eq_mult drop_bit_eq_div take_bit_eq_mod)
  qed
  also have "\<dots> = unat count - unat count mod 8"
    by (simp add: minus_mod_eq_mult_div)
  finally show ?thesis
    unfolding simd_count_of_def m_def .
qed

lemma simd_count_of_facts:
  "simd_count_of count \<le> unat count" "8 dvd simd_count_of count"
  by (simp_all add: simd_count_of_eq dvd_minus_mod)

lemma vector_loop_spec:
  assumes W: "0 < W"
    and body: "\<And>x k. length x = W \<Longrightarrow> k < W \<Longrightarrow> body x ! k = lane (x ! k)"
    and blen: "\<And>x. length x = W \<Longrightarrow> length (body x) = W"
    and noalias: "inp = outp \<or> inp + n \<le> outp \<or> outp + n \<le> inp"
    and "i \<le> n" and "W dvd (n - i)"
  shows "vector_loop W body inp outp i n mem a
           = (if outp + i \<le> a \<and> a < outp + n then lane (mem (inp + (a - outp))) else mem a)"
  using assms(5,6)
proof (induction "n - i" arbitrary: i mem rule: less_induct)
  case less
  show ?case
  proof (cases "i < n")
    case False
    then show ?thesis
      using less.prems by (subst vector_loop.simps) auto
  next
    case True
    define mem1 where "mem1 = storeu_ps mem (outp + i) (body (loadu_ps W mem (inp + i)))"
    from True less.prems(2) W have step: "i + W \<le> n"
      by (metis add.commute dvd_imp_le le_add_diff_inverse2 less_imp_le_nat nat_add_left_cancel_le
          zero_less_diff)
    then have d: "W dvd (n - (i + W))"
      using less.prems(2) by (metis diff_diff_left dvd_diff_nat dvd_refl)
    have l: "length (loadu_ps W mem (inp + i)) = W"
      by (simp add: loadu_ps_def)
    have m1: "mem1 b = (if outp + i \<le> b \<and> b < outp + i + W then lane (mem (inp + (b - outp)))
                        else mem b)" for b
    proof (cases "outp + i \<le> b \<and> b < outp + i + W")
      case True
      then have k: "b - (outp + i) < W"
        by auto
      have "mem1 b = body (loadu_ps W mem (inp + i)) ! (b - (outp + i))"
        using True by (simp add: mem1_def storeu_ps_def blen [OF l])
      also have "\<dots> = lane (loadu_ps W mem (inp + i) ! (b - (outp + i)))"
        by (rule body [OF l k])
      also have "\<dots> = lane (mem (inp + i + (b - (outp + i))))"
        using k by (simp add: loadu_ps_def)
      also have "inp + i + (b - (outp + i)) = inp + (b - outp)"
        using True by auto
      finally show ?thesis
        using True by simp
    next
      case False
      then show ?thesis
        by (auto simp add: mem1_def storeu_ps_def blen [OF l])
    qed
    have "vector_loop W body inp outp i n mem a = vector_loop W body inp outp (i + W) n mem1 a"
      using True W by (subst vector_loop.simps) (simp add: mem1_def)
    also have "\<dots> = (if outp + (i + W) \<le> a \<and> a < outp + n
                      then lane (mem1 (inp + (a - outp))) else mem1 a)"
      using True W step d by (intro less.hyps) auto
    also have "\<dots> = (if outp + i \<le> a \<and> a < outp + n then lane (mem (inp + (a - outp)))
                      else mem a)"
    proof (cases "outp + (i + W) \<le> a \<and> a < outp + n")
      case True
      then have "\<not> (outp + i \<le> inp + (a - outp) \<and> inp + (a - outp) < outp + i + W)"
        using noalias step by auto
      then have "mem1 (inp + (a - outp)) = mem (inp + (a - outp))"
        by (simp only: m1 if_False)
      then show ?thesis
        using True by auto
    next
      case False
      then show ?thesis
        using step by (auto simp add: m1)
    qed
    finally show ?thesis .
  qed
qed

text \<open>The state of the scalar function after it has been applied to a list of inputs.\<close>

definition state_after :: "('s \<Rightarrow> f32 \<Rightarrow> f32 \<times> 's) \<Rightarrow> 's \<Rightarrow> f32 list \<Rightarrow> 's" where
  "state_after f s xs = fold (\<lambda>x s. snd (f s x)) xs s"

lemma state_after_Cons: "state_after f s (x # xs) = state_after f (snd (f s x)) xs"
  by (simp add: state_after_def)

lemma state_after_Nil: "state_after f s [] = s"
  by (simp add: state_after_def)

lemma scalar_loop_spec:
  assumes noalias: "inp = outp \<or> inp + n \<le> outp \<or> outp + n \<le> inp"
    and "i \<le> n"
  shows "scalar_loop f inp outp i n (s, mem)
           = (state_after f s (map (\<lambda>k. mem (inp + k)) [i..<n]),
              (\<lambda>a. if outp + i \<le> a \<and> a < outp + n
                    then fst (f (state_after f s (map (\<lambda>k. mem (inp + k)) [i..<a - outp]))
                                (mem (inp + (a - outp))))
                    else mem a))"
  using assms(2)
proof (induction "n - i" arbitrary: i s mem rule: less_induct)
  case less
  show ?case
  proof (cases "i < n")
    case False
    then have "i = n"
      using less.prems by simp
    then show ?thesis
      by (subst scalar_loop.simps) (auto simp add: state_after_Nil intro!: ext)
  next
    case True
    define y where "y = fst (f s (mem (inp + i)))"
    define s1 where "s1 = snd (f s (mem (inp + i)))"
    define mem1 where "mem1 = mem (outp + i := y)"
    have keep: "mem1 (inp + k) = mem (inp + k)" if "i < k" "k < n" for k
      using that noalias by (auto simp add: mem1_def)
    have maps: "map (\<lambda>k. mem1 (inp + k)) [Suc i..<j] = map (\<lambda>k. mem (inp + k)) [Suc i..<j]"
      if "j \<le> n" for j
      using that by (intro map_cong) (auto simp add: keep)
    have st: "state_after f s1 (map (\<lambda>k. mem (inp + k)) [Suc i..<j])
                = state_after f s (map (\<lambda>k. mem (inp + k)) [i..<j])" if "i < j" for j
      using that by (simp add: upt_conv_Cons state_after_Cons s1_def)
    have "scalar_loop f inp outp i n (s, mem) = scalar_loop f inp outp (Suc i) n (s1, mem1)"
      using True by (subst scalar_loop.simps) (simp add: s1_def mem1_def y_def)
    also have "\<dots> = (state_after f s1 (map (\<lambda>k. mem1 (inp + k)) [Suc i..<n]),
        (\<lambda>a. if outp + Suc i \<le> a \<and> a < outp + n
              then fst (f (state_after f s1 (map (\<lambda>k. mem1 (inp + k)) [Suc i..<a - outp]))
                          (mem1 (inp + (a - outp))))
              else mem1 a))"
      using True by (intro less.hyps) auto
    also have "\<dots> = (state_after f s (map (\<lambda>k. mem (inp + k)) [i..<n]),
        (\<lambda>a. if outp + i \<le> a \<and> a < outp + n
              then fst (f (state_after f s (map (\<lambda>k. mem (inp + k)) [i..<a - outp]))
                          (mem (inp + (a - outp))))
              else mem a))"
    proof (intro prod_eqI ext; simp only: fst_conv snd_conv)
      show "state_after f s1 (map (\<lambda>k. mem1 (inp + k)) [Suc i..<n])
              = state_after f s (map (\<lambda>k. mem (inp + k)) [i..<n])"
        using True by (simp add: maps st)
    next
      fix a
      show "(if outp + Suc i \<le> a \<and> a < outp + n
             then fst (f (state_after f s1 (map (\<lambda>k. mem1 (inp + k)) [Suc i..<a - outp]))
                        (mem1 (inp + (a - outp))))
             else mem1 a)
          = (if outp + i \<le> a \<and> a < outp + n
             then fst (f (state_after f s (map (\<lambda>k. mem (inp + k)) [i..<a - outp]))
                        (mem (inp + (a - outp))))
             else mem a)"
      proof (cases "outp + Suc i \<le> a \<and> a < outp + n")
        case True
        then have j: "i < a - outp" "a - outp < n" "a - outp \<le> n"
          and T2: "outp + i \<le> a \<and> a < outp + n"
          by auto
        have e: "mem1 (inp + (a - outp)) = mem (inp + (a - outp))"
          by (rule keep [OF j(1) j(2)])
        show ?thesis
          by (simp only: True T2 maps [OF j(3)] st [OF j(1)] e) simp
      next
        case False
        show ?thesis
        proof (cases "a = outp + i")
          case True
          then show ?thesis
            using \<open>i < n\<close> by (simp add: mem1_def y_def state_after_Nil)
        next
          case False
          with \<open>\<not> (outp + Suc i \<le> a \<and> a < outp + n)\<close> show ?thesis
            by (auto simp add: mem1_def)
        qed
      qed
    qed
    finally show ?thesis .
  qed
qed

lemma batch_spec:
  assumes body: "\<And>x k. length x = 8 \<Longrightarrow> k < 8 \<Longrightarrow> body x ! k = lane (x ! k)"
    and blen: "\<And>x. length x = 8 \<Longrightarrow> length (body x) = 8"
    and noalias: "inp = outp \<or> inp + unat count \<le> outp \<or> outp + unat count \<le> inp"
  shows "scalar_loop f inp outp (simd_count_of count) (unat count)
           (s, vector_loop 8 body inp outp 0 (simd_count_of count) mem)
         = (state_after f s (map (\<lambda>k. mem (inp + k)) [simd_count_of count..<unat count]),
            (\<lambda>a. if outp \<le> a \<and> a < outp + simd_count_of count
                  then lane (mem (inp + (a - outp)))
                  else if outp + simd_count_of count \<le> a \<and> a < outp + unat count
                  then fst (f (state_after f s
                                 (map (\<lambda>k. mem (inp + k)) [simd_count_of count..<a - outp]))
                              (mem (inp + (a - outp))))
                  else mem a))"
proof -
  define sc where "sc = simd_count_of count"
  define n where "n = unat count"
  define memv where "memv = vector_loop 8 body inp outp 0 sc mem"
  have sc: "sc \<le> n" "8 dvd sc"
    by (simp_all add: sc_def n_def simd_count_of_facts)
  have na: "inp = outp \<or> inp + n \<le> outp \<or> outp + n \<le> inp"
    using noalias by (simp add: n_def)
  have nav: "inp = outp \<or> inp + sc \<le> outp \<or> outp + sc \<le> inp"
    using na sc(1) by auto
  have v: "memv a = (if outp + 0 \<le> a \<and> a < outp + sc then lane (mem (inp + (a - outp)))
                     else mem a)" for a
    unfolding memv_def using sc(2) by (intro vector_loop_spec [OF _ body blen nav]) auto
  have keep: "memv (inp + k) = mem (inp + k)" if "sc \<le> k" "k < n" for k
    using that na by (auto simp add: v)
  have maps: "map (\<lambda>k. memv (inp + k)) [sc..<j] = map (\<lambda>k. mem (inp + k)) [sc..<j]"
    if "j \<le> n" for j
    using that by (intro map_cong) (auto simp add: keep)
  have "scalar_loop f inp outp sc n (s, memv)
          = (state_after f s (map (\<lambda>k. memv (inp + k)) [sc..<n]),
             (\<lambda>a. if outp + sc \<le> a \<and> a < outp + n
                   then fst (f (state_after f s (map (\<lambda>k. memv (inp + k)) [sc..<a - outp]))
                               (memv (inp + (a - outp))))
                   else memv a))"
    by (rule scalar_loop_spec [OF na sc(1)])
  also have "\<dots> = (state_after f s (map (\<lambda>k. mem (inp + k)) [sc..<n]),
             (\<lambda>a. if outp \<le> a \<and> a < outp + sc then lane (mem (inp + (a - outp)))
                   else if outp + sc \<le> a \<and> a < outp + n
                   then fst (f (state_after f s (map (\<lambda>k. mem (inp + k)) [sc..<a - outp]))
                               (mem (inp + (a - outp))))
                   else mem a))"
  proof (intro prod_eqI ext; simp only: fst_conv snd_conv)
    show "state_after f s (map (\<lambda>k. memv (inp + k)) [sc..<n])
            = state_after f s (map (\<lambda>k. mem (inp + k)) [sc..<n])"
      by (simp add: maps)
  next
    fix a
    show "(if outp + sc \<le> a \<and> a < outp + n
           then fst (f (state_after f s (map (\<lambda>k. memv (inp + k)) [sc..<a - outp]))
                      (memv (inp + (a - outp))))
           else memv a)
        = (if outp \<le> a \<and> a < outp + sc then lane (mem (inp + (a - outp)))
           else if outp + sc \<le> a \<and> a < outp + n
           then fst (f (state_after f s (map (\<lambda>k. mem (inp + k)) [sc..<a - outp]))
                      (mem (inp + (a - outp))))
           else mem a)"
    proof (cases "outp + sc \<le> a \<and> a < outp + n")
      case True
      then have j: "sc \<le> a - outp" "a - outp < n" "a - outp \<le> n"
        and F: "\<not> (outp \<le> a \<and> a < outp + sc)"
        by auto
      have e: "memv (inp + (a - outp)) = mem (inp + (a - outp))"
        by (rule keep [OF j(1) j(2)])
      show ?thesis
        by (simp only: True F maps [OF j(3)] e) simp
    next
      case False
      then show ?thesis
        using sc(1) by (auto simp add: v)
    qed
  qed
  finally show ?thesis
    by (simp only: sc_def n_def memv_def)
qed

lemma state_after_pure: "state_after (\<lambda>s x. (g s x, s)) s xs = s"
  by (induction xs) (simp_all add: state_after_def)

text \<open>
  Claim C6, as the code has it. Each batch function writes exactly the \<open>count\<close> floats
  \<open>output[0..count)\<close> and nothing else, in the order of the input, for buffers that are
  the same or do not overlap. Below the last multiple of 8, \<open>output[j]\<close> is the lane
  function of \<open>input[j]\<close> alone; the final \<open>count mod 8\<close> elements are evaluated by the
  scalar path in increasing order. In \<open>ultra_rsqrt_avx2\<close> and \<open>hybrid_rsqrt_simd\<close> each of
  them depends on \<open>input[j]\<close> alone. In \<open>NeuralRsqrt::compute_simd\<close> the scalar path is the
  method \<open>compute\<close>, which reads and updates the running statistics of the object, so a
  tail result is \<open>compute\<close> on \<open>input[j]\<close> in the state left by the tail inputs before it.
\<close>

theorem transform_order_and_length:
  assumes "inp = outp \<or> inp + unat count \<le> outp \<or> outp + unat count \<le> inp"
    and "j < unat count"
  shows "ultra_rsqrt_avx2 sse fma hw mem inp outp count (outp + j)
           = (if j < unat count - unat count mod 8 then ultra_lane fma hw (mem (inp + j))
              else ultra_rsqrt sse hw (mem (inp + j)))
       \<and> (a < outp \<or> outp + unat count \<le> a
            \<longrightarrow> ultra_rsqrt_avx2 sse fma hw mem inp outp count a = mem a)
       \<and> snd (hybrid_rsqrt_simd fma G mem inp outp count) (outp + j)
           = (if j < unat count - unat count mod 8 then hybrid_lane fma (mem (inp + j))
              else hybrid_rsqrt fma (initialize_lut G) (mem (inp + j)))
       \<and> (a < outp \<or> outp + unat count \<le> a
            \<longrightarrow> snd (hybrid_rsqrt_simd fma G mem inp outp count) a = mem a)
       \<and> snd (NeuralRsqrt_compute_simd gp this mem inp outp count) (outp + j)
           = (if j < unat count - unat count mod 8 then NeuralRsqrt_lane (mem (inp + j))
              else fst (NeuralRsqrt_compute gp
                          (state_after (NeuralRsqrt_compute gp) this
                             (map (\<lambda>k. mem (inp + k)) [unat count - unat count mod 8..<j]))
                          (mem (inp + j))))
       \<and> (a < outp \<or> outp + unat count \<le> a
            \<longrightarrow> snd (NeuralRsqrt_compute_simd gp this mem inp outp count) a = mem a)"
proof -
  have sc: "simd_count_of count \<le> unat count"
    by (rule simd_count_of_facts)
  note u = batch_spec [where f = "\<lambda>u x. (ultra_rsqrt sse hw x, ())" and s = "()",
      OF ultra_rsqrt_avx2_body_nth ultra_rsqrt_avx2_body_length assms(1)]
  note h = batch_spec [where f = "\<lambda>G x. (hybrid_rsqrt fma G x, G)",
      OF hybrid_rsqrt_simd_body_nth hybrid_rsqrt_simd_body_length assms(1)]
  note n = batch_spec [where f = "NeuralRsqrt_compute gp",
      OF NeuralRsqrt_compute_simd_body_nth NeuralRsqrt_compute_simd_body_length assms(1)]
  have U: "ultra_rsqrt_avx2 sse fma hw mem inp outp count b
             = (if outp \<le> b \<and> b < outp + simd_count_of count
                then ultra_lane fma hw (mem (inp + (b - outp)))
                else if outp + simd_count_of count \<le> b \<and> b < outp + unat count
                then ultra_rsqrt sse hw (mem (inp + (b - outp)))
                else mem b)" for b
    by (simp add: ultra_rsqrt_avx2_def Let_def u)
  have H: "snd (hybrid_rsqrt_simd fma G mem inp outp count) b
             = (if outp \<le> b \<and> b < outp + simd_count_of count
                then hybrid_lane fma (mem (inp + (b - outp)))
                else if outp + simd_count_of count \<le> b \<and> b < outp + unat count
                then hybrid_rsqrt fma (initialize_lut G) (mem (inp + (b - outp)))
                else mem b)" for b
    by (simp add: hybrid_rsqrt_simd_def Let_def h state_after_pure)
  have N: "snd (NeuralRsqrt_compute_simd gp this mem inp outp count) b
             = (if outp \<le> b \<and> b < outp + simd_count_of count
                then NeuralRsqrt_lane (mem (inp + (b - outp)))
                else if outp + simd_count_of count \<le> b \<and> b < outp + unat count
                then fst (NeuralRsqrt_compute gp
                            (state_after (NeuralRsqrt_compute gp) this
                               (map (\<lambda>k. mem (inp + k)) [simd_count_of count..<b - outp]))
                            (mem (inp + (b - outp))))
                else mem b)" for b
    by (simp add: NeuralRsqrt_compute_simd_def Let_def n)
  show ?thesis
    using assms(2) sc by (auto simp add: U H N simd_count_of_eq)
qed
theorem transform_order_and_length_witness:
  "(0 :: nat) + unat (10 :: 64 word) \<le> 16 \<and> (9 :: nat) < unat (10 :: 64 word)
   \<and> ultra_rsqrt_avx2 True True id (\<lambda>a. lit_4_0f) 0 16 10 (16 + 9) = ultra_rsqrt True id lit_4_0f
   \<and> ultra_rsqrt_avx2 True True id (\<lambda>a. lit_4_0f) 0 16 10 3 = lit_4_0f
   \<and> snd (hybrid_rsqrt_simd True hybrid_globals_static (\<lambda>a. lit_4_0f) 0 16 10) (16 + 9)
       = hybrid_rsqrt True (initialize_lut hybrid_globals_static) lit_4_0f
   \<and> snd (hybrid_rsqrt_simd True hybrid_globals_static (\<lambda>a. lit_4_0f) 0 16 10) 3 = lit_4_0f
   \<and> snd (NeuralRsqrt_compute_simd FAST neural_rsqrt (\<lambda>a. lit_4_0f) 0 16 10) (16 + 9)
       = fst (NeuralRsqrt_compute FAST (snd (NeuralRsqrt_compute FAST neural_rsqrt lit_4_0f)) lit_4_0f)
   \<and> snd (NeuralRsqrt_compute_simd FAST neural_rsqrt (\<lambda>a. lit_4_0f) 0 16 10) 3 = lit_4_0f"
proof -
  have h: "(0 :: nat) = 16 \<or> 0 + unat (10 :: 64 word) \<le> 16 \<or> 16 + unat (10 :: 64 word) \<le> 0"
    "(9 :: nat) < unat (10 :: 64 word)"
    by simp_all
  have r: "[unat (10 :: 64 word) - unat (10 :: 64 word) mod 8..<9] = [8]"
    by (simp add: upt_rec)
  show ?thesis
    using transform_order_and_length [OF h, where sse = True and fma = True and hw = id
        and mem = "\<lambda>a. lit_4_0f" and a = 3 and G = hybrid_globals_static and gp = FAST
        and this = neural_rsqrt]
    by (simp add: r state_after_def)
qed

subsection \<open>The running statistics couple the tail elements of \<open>NeuralRsqrt::compute_simd\<close>\<close>

lemma map_nth_256: "length h = 256 \<Longrightarrow> map (\<lambda>i. h ! i) [0..<256] = h"
  using map_nth [of h] by simp

lemma fold_stats_step_zeros:
  "stats_step 0 st = st \<Longrightarrow> fold stats_step (replicate n 0) st = st"
  by (induction n) simp_all

lemma update_stats_eval:
  assumes len: "length (input_history this) = 256"
    and upd: "(input_history this)[history_idx this := x] = pre @ replicate n 0"
    and pf: "fold stats_step pre (lit_0_0f, lit_0_0f) = (s, q)"
    and fx: "stats_step 0 (s, q) = (s, q)"
    and m: "f32_div s lit_256_0f = mean"
    and v: "f32_sub (f32_div q lit_256_0f) (f32_mul mean mean) = var"
  shows "update_stats this x
         = this \<lparr> input_history := pre @ replicate n 0,
                  history_idx := (history_idx this + 1) mod 256,
                  mean_input := mean, variance := var \<rparr>"
proof -
  have l: "length (pre @ replicate n 0) = 256"
    using len upd by (metis length_list_update)
  have f: "fold stats_step (map (\<lambda>i. (pre @ replicate n 0) ! i) [0..<256]) (lit_0_0f, lit_0_0f)
             = (s, q)"
    by (simp only: map_nth_256 [OF l] fold_append o_apply pf fold_stats_step_zeros [OF fx])
  show ?thesis
    unfolding update_stats_def Let_def upd f by (simp add: m v)
qed

lemma NeuralRsqrt_compute_state: "snd (NeuralRsqrt_compute gp this x) = update_stats this x"
  by (simp add: NeuralRsqrt_compute_def Let_def)

lemma replicate_256_update_0: "(replicate 256 (0 :: f32))[0 := x] = [x] @ replicate 255 0"
proof -
  have "(256 :: nat) = Suc 255"
    by simp
  then show ?thesis
    by (simp only: replicate_Suc list_update_code append_Cons append_Nil)
qed

lemma replicate_255_update_1:
  "([x] @ replicate 255 (0 :: f32))[1 := y] = [x, y] @ replicate 254 0"
proof -
  have "(255 :: nat) = Suc 254"
    by simp
  then show ?thesis
    by (simp only: replicate_Suc list_update_code append_Cons append_Nil One_nat_def)
qed

lemma update_stats_first_100:
  "update_stats neural_rsqrt 0x42C80000
     = neural_rsqrt \<lparr> input_history := [0x42C80000] @ replicate 255 0, history_idx := 1,
                      mean_input := 0x3EC80000, variance := 0x421BA3C0 \<rparr>"
proof -
  have a: "length (input_history neural_rsqrt) = 256" "history_idx neural_rsqrt = 0"
    "input_history neural_rsqrt = replicate 256 0"
    by (simp_all add: neural_rsqrt_def NeuralRsqrt_ctor_def)
  have u: "(input_history neural_rsqrt)[history_idx neural_rsqrt := 0x42C80000]
             = [0x42C80000] @ replicate 255 0"
    by (simp only: a replicate_256_update_0)
  have p: "fold stats_step [0x42C80000] (lit_0_0f, lit_0_0f) = (0x42C80000, 0x461C4000)"
    by (simp add: stats_step_def f32_eval lit_defs)
  have z: "stats_step 0 (0x42C80000, 0x461C4000) = (0x42C80000, 0x461C4000)"
    by (simp add: stats_step_def f32_eval lit_defs)
  have m: "f32_div 0x42C80000 lit_256_0f = 0x3EC80000"
    by (simp add: f32_eval lit_defs)
  have v: "f32_sub (f32_div 0x461C4000 lit_256_0f) (f32_mul 0x3EC80000 0x3EC80000) = 0x421BA3C0"
    by (simp add: f32_eval lit_defs)
  show ?thesis
    using update_stats_eval [OF a(1) u p z m v] by (simp add: a)
qed
lemma update_stats_first_0_2:
  "update_stats neural_rsqrt 0x3E4CCCCD
     = neural_rsqrt \<lparr> input_history := [0x3E4CCCCD] @ replicate 255 0, history_idx := 1,
                      mean_input := 0x3A4CCCCD, variance := 0x39233334 \<rparr>"
proof -
  have a: "length (input_history neural_rsqrt) = 256" "history_idx neural_rsqrt = 0"
    "input_history neural_rsqrt = replicate 256 0"
    by (simp_all add: neural_rsqrt_def NeuralRsqrt_ctor_def)
  have u: "(input_history neural_rsqrt)[history_idx neural_rsqrt := 0x3E4CCCCD]
             = [0x3E4CCCCD] @ replicate 255 0"
    by (simp only: a replicate_256_update_0)
  have p: "fold stats_step [0x3E4CCCCD] (lit_0_0f, lit_0_0f) = (0x3E4CCCCD, 0x3D23D70B)"
    by (simp add: stats_step_def f32_eval lit_defs)
  have z: "stats_step 0 (0x3E4CCCCD, 0x3D23D70B) = (0x3E4CCCCD, 0x3D23D70B)"
    by (simp add: stats_step_def f32_eval lit_defs)
  have m: "f32_div 0x3E4CCCCD lit_256_0f = 0x3A4CCCCD"
    by (simp add: f32_eval lit_defs)
  have v: "f32_sub (f32_div 0x3D23D70B lit_256_0f) (f32_mul 0x3A4CCCCD 0x3A4CCCCD) = 0x39233334"
    by (simp add: f32_eval lit_defs)
  show ?thesis
    using update_stats_eval [OF a(1) u p z m v] by (simp add: a)
qed

lemma update_stats_second_after_100:
  "variance (update_stats (update_stats neural_rsqrt 0x42C80000) 0x3E4CCCCD) = 0x421BA349"
proof -
  define st where "st = update_stats neural_rsqrt 0x42C80000"
  have a: "length (input_history st) = 256" "history_idx st = 1"
    "input_history st = [0x42C80000] @ replicate 255 0"
    by (simp_all add: st_def update_stats_first_100)
  have u: "(input_history st)[history_idx st := 0x3E4CCCCD]
             = [0x42C80000, 0x3E4CCCCD] @ replicate 254 0"
    by (simp only: a replicate_255_update_1)
  have p: "fold stats_step [0x42C80000, 0x3E4CCCCD] (lit_0_0f, lit_0_0f)
             = (0x42C86666, 0x461C4029)"
    by (simp add: stats_step_def f32_eval lit_defs)
  have z: "stats_step 0 (0x42C86666, 0x461C4029) = (0x42C86666, 0x461C4029)"
    by (simp add: stats_step_def f32_eval lit_defs)
  have m: "f32_div 0x42C86666 lit_256_0f = 0x3EC86666"
    by (simp add: f32_eval lit_defs)
  have v: "f32_sub (f32_div 0x461C4029 lit_256_0f) (f32_mul 0x3EC86666 0x3EC86666) = 0x421BA349"
    by (simp add: f32_eval lit_defs)
  show ?thesis
    unfolding st_def [symmetric] using update_stats_eval [OF a(1) u p z m v] by simp
qed

lemma update_stats_second_after_0_2:
  "variance (update_stats (update_stats neural_rsqrt 0x3E4CCCCD) 0x3E4CCCCD) = 0x39A28F5D"
proof -
  define st where "st = update_stats neural_rsqrt 0x3E4CCCCD"
  have a: "length (input_history st) = 256" "history_idx st = 1"
    "input_history st = [0x3E4CCCCD] @ replicate 255 0"
    by (simp_all add: st_def update_stats_first_0_2)
  have u: "(input_history st)[history_idx st := 0x3E4CCCCD]
             = [0x3E4CCCCD, 0x3E4CCCCD] @ replicate 254 0"
    by (simp only: a replicate_255_update_1)
  have p: "fold stats_step [0x3E4CCCCD, 0x3E4CCCCD] (lit_0_0f, lit_0_0f)
             = (0x3ECCCCCD, 0x3DA3D70B)"
    by (simp add: stats_step_def f32_eval lit_defs)
  have z: "stats_step 0 (0x3ECCCCCD, 0x3DA3D70B) = (0x3ECCCCCD, 0x3DA3D70B)"
    by (simp add: stats_step_def f32_eval lit_defs)
  have m: "f32_div 0x3ECCCCCD lit_256_0f = 0x3ACCCCCD"
    by (simp add: f32_eval lit_defs)
  have v: "f32_sub (f32_div 0x3DA3D70B lit_256_0f) (f32_mul 0x3ACCCCCD 0x3ACCCCCD) = 0x39A28F5D"
    by (simp add: f32_eval lit_defs)
  show ?thesis
    unfolding st_def [symmetric] using update_stats_eval [OF a(1) u p z m v] by simp
qed

text \<open>Outside the table range \<open>[0.25, 4]\<close> the result of \<open>compute\<close> is the bit-level path
  at the precision that the variance of the history selects.\<close>

lemma NeuralRsqrt_compute_bit_path:
  assumes "\<not> (f32_le lit_0_25f x \<and> f32_le x lit_4_0f)"
    and "(if f32_lt (variance (update_stats this x)) lit_0_01f \<and> gp \<noteq> ULTRA_FAST
          then ULTRA_FAST else gp) = precision"
  shows "fst (NeuralRsqrt_compute gp this x)
         = (let y = NeuralRsqrt_guess x;
                x2 = f32_mul x lit_0_5f;
                err = f32_sub lit_1_0f (f32_mul (f32_mul x y) y);
                y = f32_mul y (f32_add (poly_a magic_consts)
                      (f32_mul err (f32_add (poly_b magic_consts)
                         (f32_mul err (poly_c magic_consts)))))
            in NeuralRsqrt_switch precision x x2 y)"
  using assms by (auto simp add: NeuralRsqrt_compute_def Let_def)

lemma NeuralRsqrt_poly_0_2:
  "NeuralRsqrt_guess 0x3E4CCCCD = 0x4010F379"
  "f32_sub lit_1_0f (f32_mul (f32_mul 0x3E4CCCCD 0x4010F379) 0x4010F379) = 0xBCD45300"
  "f32_mul 0x4010F379 (f32_add (poly_a magic_consts)
     (f32_mul 0xBCD45300 (f32_add (poly_b magic_consts)
        (f32_mul 0xBCD45300 (poly_c magic_consts))))) = 0x405B6F53"
  by (simp_all add: NeuralRsqrt_guess_def NeuralRsqrt_magic_def magic_consts_def f32_eval
      lit_defs)

lemma NeuralRsqrt_switch_0_2:
  "NeuralRsqrt_switch FAST 0x3E4CCCCD (f32_mul 0x3E4CCCCD lit_0_5f) 0x405B6F53 = 0x3FC3F3C6"
  "NeuralRsqrt_switch ULTRA_FAST 0x3E4CCCCD (f32_mul 0x3E4CCCCD lit_0_5f) 0x405B6F53 = 0x3F8E6110"
  by (simp_all add: NeuralRsqrt_switch_def f32_eval lit_defs cong: let_weak_cong)
lemma NeuralRsqrt_compute_simd_tail_1:
  "snd (NeuralRsqrt_compute_simd gp this mem 0 2 2) 3
     = fst (NeuralRsqrt_compute gp (update_stats this (mem 0)) (mem 1))"
proof -
  have na: "(0 :: nat) = 2 \<or> 0 + unat (2 :: 64 word) \<le> 2 \<or> 2 + unat (2 :: 64 word) \<le> 0"
    by simp
  have sc: "simd_count_of 2 = 0"
    by (simp add: simd_count_of_eq)
  note n = batch_spec [where f = "NeuralRsqrt_compute gp",
      OF NeuralRsqrt_compute_simd_body_nth NeuralRsqrt_compute_simd_body_length na]
  show ?thesis
    by (simp only: NeuralRsqrt_compute_simd_def Let_def n snd_conv)
      (simp add: sc state_after_def NeuralRsqrt_compute_state)
qed

lemma NeuralRsqrt_compute_0_2_after_100:
  "fst (NeuralRsqrt_compute FAST (update_stats neural_rsqrt 0x42C80000) 0x3E4CCCCD) = 0x3FC3F3C6"
proof -
  have r: "\<not> (f32_le lit_0_25f 0x3E4CCCCD \<and> f32_le 0x3E4CCCCD lit_4_0f)"
    by (simp add: f32_eval lit_defs)
  have p: "(if f32_lt (variance (update_stats (update_stats neural_rsqrt 0x42C80000) 0x3E4CCCCD))
                lit_0_01f \<and> FAST \<noteq> ULTRA_FAST then ULTRA_FAST else FAST) = FAST"
    by (simp add: update_stats_second_after_100 f32_eval lit_defs)
  show ?thesis
    by (simp only: NeuralRsqrt_compute_bit_path [OF r p] Let_def NeuralRsqrt_poly_0_2
        NeuralRsqrt_switch_0_2)
qed

lemma NeuralRsqrt_compute_0_2_after_0_2:
  "fst (NeuralRsqrt_compute FAST (update_stats neural_rsqrt 0x3E4CCCCD) 0x3E4CCCCD) = 0x3F8E6110"
proof -
  have r: "\<not> (f32_le lit_0_25f 0x3E4CCCCD \<and> f32_le 0x3E4CCCCD lit_4_0f)"
    by (simp add: f32_eval lit_defs)
  have p: "(if f32_lt (variance (update_stats (update_stats neural_rsqrt 0x3E4CCCCD) 0x3E4CCCCD))
                lit_0_01f \<and> FAST \<noteq> ULTRA_FAST then ULTRA_FAST else FAST) = ULTRA_FAST"
    by (simp add: update_stats_second_after_0_2 f32_eval lit_defs)
  show ?thesis
    by (simp only: NeuralRsqrt_compute_bit_path [OF r p] Let_def NeuralRsqrt_poly_0_2
        NeuralRsqrt_switch_0_2)
qed

text \<open>
  Two calls of \<open>neural_rsqrt.compute_simd(input, output, 2)\<close> at precision \<open>FAST\<close> on the
  freshly constructed object, with \<open>input = {100.0f, 0.2f}\<close> and \<open>input = {0.2f, 0.2f}\<close>:
  the second element is \<open>0.2f\<close> in both, and \<open>output[1]\<close> is \<open>0x3FC3F3C6\<close> (about 1.531,
  two Newton-Raphson steps) in the first and \<open>0x3F8E6110\<close> (about 1.112, one step) in the
  second, because the variance of the history, which \<open>input[0]\<close> has entered, selects the
  number of steps.
\<close>

theorem transform_tail_depends_on_earlier_input:
  "((\<lambda>a. 0)(0 := 0x42C80000, 1 := 0x3E4CCCCD) :: memory) 1
     = ((\<lambda>a. 0)(0 := 0x3E4CCCCD, 1 := 0x3E4CCCCD) :: memory) 1
   \<and> snd (NeuralRsqrt_compute_simd FAST neural_rsqrt
            ((\<lambda>a. 0)(0 := 0x42C80000, 1 := 0x3E4CCCCD)) 0 2 2) (2 + 1) = 0x3FC3F3C6
   \<and> snd (NeuralRsqrt_compute_simd FAST neural_rsqrt
            ((\<lambda>a. 0)(0 := 0x3E4CCCCD, 1 := 0x3E4CCCCD)) 0 2 2) (2 + 1) = 0x3F8E6110
   \<and> snd (NeuralRsqrt_compute_simd FAST neural_rsqrt
            ((\<lambda>a. 0)(0 := 0x42C80000, 1 := 0x3E4CCCCD)) 0 2 2) (2 + 1)
       \<noteq> snd (NeuralRsqrt_compute_simd FAST neural_rsqrt
            ((\<lambda>a. 0)(0 := 0x3E4CCCCD, 1 := 0x3E4CCCCD)) 0 2 2) (2 + 1)"
proof -
  have e: "(2 + 1 :: nat) = 3"
    by simp
  show ?thesis
    unfolding e
    by (simp add: NeuralRsqrt_compute_simd_tail_1 NeuralRsqrt_compute_0_2_after_100
        NeuralRsqrt_compute_0_2_after_0_2)
qed
section \<open>Rounding errors\<close>

text \<open>
  The kernels are compared with \<open>1 / sqrt x\<close> on the real numbers. This part relates the
  bit-level operations to the values they denote: a result in the range of the normal
  numbers is the exact result times \<open>1 + d\<close> with \<open>\<bar>d\<bar> \<le> 2\<^sup>-\<^sup>2\<^sup>4\<close>.
\<close>

lemma bitlen_bounds: "0 < m \<Longrightarrow> 2 ^ (bitlen m - 1) \<le> m \<and> m < 2 ^ bitlen m"
proof (induction m rule: bitlen.induct)
  case (1 n)
  have b: "bitlen n = Suc (bitlen (n div 2))"
    using 1(2) by (subst bitlen.simps) simp
  show ?case
  proof (cases "n div 2 = 0")
    case True
    with 1(2) have "n = 1"
      by (simp add: div_eq_0_iff)
    then show ?thesis
      by simp
  next
    case False
    then have ih: "2 ^ (bitlen (n div 2) - 1) \<le> n div 2" "n div 2 < 2 ^ bitlen (n div 2)"
      using 1 by simp_all
    have "0 < bitlen (n div 2)"
      using False bitlen.simps [of "n div 2"] by simp
    then have pos: "bitlen (n div 2) = Suc (bitlen (n div 2) - 1)"
      by simp
    have "(2 :: nat) ^ bitlen (n div 2) = 2 * 2 ^ (bitlen (n div 2) - 1)"
      by (subst pos) simp
    then have "2 ^ bitlen (n div 2) \<le> n"
      using ih(1) by linarith
    moreover have "n < 2 * 2 ^ bitlen (n div 2)"
      using ih(2) by linarith
    ultimately show ?thesis
      by (simp add: b)
  qed
qed

lemma rne_error:
  assumes "0 < k"
  shows "2 * \<bar>int (rne m k) * 2 ^ k - int m\<bar> \<le> 2 ^ k"
proof -
  define P :: nat where "P = 2 ^ k"
  define h where "h = P div 2"
  define q where "q = m div P"
  define r where "r = m mod P"
  have P: "P = 2 * h"
    using assms by (cases k) (simp_all add: P_def h_def)
  have m: "m = q * P + r"
    using div_mult_mod_eq [of m P] by (simp add: q_def r_def)
  have r: "r < P"
    by (simp add: r_def P_def)
  have e: "rne m k = (if h < r \<or> (r = h \<and> odd q) then q + 1 else q)"
    by (simp add: rne_def rne_aux_def P_def h_def q_def r_def)
  have "int m = int (q * P + r)"
    using m by (rule arg_cong)
  moreover have "int P = int (2 * h)"
    using P by (rule arg_cong)
  ultimately have i: "int m = int q * int P + int r" "int P = 2 * int h" "int r < int P"
    using r by simp_all
  have p: "(2 :: int) ^ k = int P"
    by (simp add: P_def)
  show ?thesis
  proof (cases "h < r \<or> (r = h \<and> odd q)")
    case True
    then have "int (rne m k) * int P - int m = int P - int r" and hr: "int h \<le> int r"
      using e i by (auto simp add: algebra_simps)
    then have a: "\<bar>int (rne m k) * int P - int m\<bar> = int P - int r"
      using i(3) by simp
    show ?thesis
      unfolding p a using hr i(2) by simp
  next
    case False
    then have "int (rne m k) * int P - int m = - int r" and hr: "int r \<le> int h"
      using e i by (auto simp add: algebra_simps)
    then have a: "\<bar>int (rne m k) * int P - int m\<bar> = int r"
      by simp
    show ?thesis
      unfolding p a using hr i(2) by simp
  qed
qed

lemma rne_range:
  assumes "2 ^ 23 * 2 ^ k \<le> m" and "m < 2 ^ 24 * 2 ^ k"
  shows "2 ^ 23 \<le> rne m k \<and> rne m k \<le> 2 ^ 24"
proof -
  have a: "2 ^ 23 \<le> m div 2 ^ k"
    using assms(1) by (simp add: less_eq_div_iff_mult_less_eq)
  have b: "m div 2 ^ k < 2 ^ 24"
    using assms(2) by (simp add: less_mult_imp_div_less)
  show ?thesis
    using a b by (auto simp add: rne_def rne_aux_def)
qed

lemma f32_val_normal:
  assumes "0 < E" and "E < 255" and "F < 2 ^ 23"
  shows "f32_val (f32_pack s (E * 2 ^ 23 + F))
           = (if s then - 1 else 1) * (real (2 ^ 23 + F) * 2 powr real_of_int (int E - 150))"
    and "is_finite (f32_pack s (E * 2 ^ 23 + F))"
    and "f32_sign (f32_pack s (E * 2 ^ 23 + F)) = s"
proof -
  define b where "b = E * 2 ^ 23 + F"
  have "b < 255 * 2 ^ 23"
    using assms(2,3) by (simp add: b_def)
  then have lt: "b < 2 ^ 31"
    by simp
  have d: "b div 2 ^ 23 = E" and m: "b mod 2 ^ 23 = F"
    using assms(3) by (simp_all add: b_def)
  have e: "f32_expo (f32_pack s b) = E" and f: "f32_frac (f32_pack s b) = F"
    and g: "f32_sign (f32_pack s b) = s"
    using f32_pack_fields [OF lt, of s] d m by simp_all
  show "is_finite (f32_pack s (E * 2 ^ 23 + F))"
    using e assms(2) by (simp add: is_finite_def b_def)
  show "f32_sign (f32_pack s (E * 2 ^ 23 + F)) = s"
    using g by (simp add: b_def)
  have "f32_val (f32_pack s b)
          = (if s then - 1 else 1) * (real (2 ^ 23 + F) * 2 powr real_of_int (int E - 150))"
  proof -
    have mant: "f32_mant (f32_pack s b) = 2 ^ 23 + F"
      using assms(1) by (simp add: f32_mant_def e f)
    have sc: "f32_scale (f32_pack s b) = int E - 150"
      using assms(1) by (simp add: f32_scale_def e)
    have sv: "f32_sval (f32_pack s b) = (if s then - int (2 ^ 23 + F) else int (2 ^ 23 + F))"
      by (simp only: f32_sval_def g mant)
    show ?thesis
      unfolding f32_val_def sv sc by simp
  qed
  then show "f32_val (f32_pack s (E * 2 ^ 23 + F))
           = (if s then - 1 else 1) * (real (2 ^ 23 + F) * 2 powr real_of_int (int E - 150))"
    by (simp only: b_def)
qed

lemma f32_val_pack:
  assumes "2 ^ 23 \<le> M" and "M \<le> 2 ^ 24" and "Q + 2 < 255"
  shows "f32_val (f32_pack s (Q * 2 ^ 23 + M))
           = (if s then - 1 else 1) * (real M * 2 powr real_of_int (int Q - 149))"
    and "is_finite (f32_pack s (Q * 2 ^ 23 + M))"
    and "f32_sign (f32_pack s (Q * 2 ^ 23 + M)) = s"
proof -
  consider (lt) "M < 2 ^ 24" | (eq) "M = 2 ^ 24"
    using assms(2) by fastforce
  then have "f32_val (f32_pack s (Q * 2 ^ 23 + M))
           = (if s then - 1 else 1) * (real M * 2 powr real_of_int (int Q - 149))
       \<and> is_finite (f32_pack s (Q * 2 ^ 23 + M)) \<and> f32_sign (f32_pack s (Q * 2 ^ 23 + M)) = s"
  proof cases
    case lt
    define F where "F = M - 2 ^ 23"
    have F: "F < 2 ^ 23" "M = 2 ^ 23 + F"
      using lt assms(1) by (simp_all add: F_def)
    have b: "Q * 2 ^ 23 + M = (Q + 1) * 2 ^ 23 + F"
      by (simp add: F(2))
    have s: "int (Q + 1) - 150 = int Q - 149"
      by simp
    show ?thesis
      unfolding b using f32_val_normal [of "Q + 1" F s] assms(3) F(1)
      by (simp only: s F(2))
  next
    case eq
    have b: "Q * 2 ^ 23 + M = (Q + 2) * 2 ^ 23 + 0"
      by (simp add: eq)
    have s: "real Q - 148 = (real Q - 149) + 1"
      by simp
    have p: "2 powr (real Q - 148) = 2 * 2 powr (real Q - 149)"
      by (subst s, subst powr_add) simp
    show ?thesis
      unfolding b using f32_val_normal [of "Q + 2" 0 s] assms(3)
      by (simp add: p eq)
  qed
  then show "f32_val (f32_pack s (Q * 2 ^ 23 + M))
           = (if s then - 1 else 1) * (real M * 2 powr real_of_int (int Q - 149))"
    and "is_finite (f32_pack s (Q * 2 ^ 23 + M))"
    and "f32_sign (f32_pack s (Q * 2 ^ 23 + M)) = s"
    by simp_all
qed

lemma p2_int_add: "2 powr real_of_int (a + b) = 2 powr real_of_int a * 2 powr real_of_int b"
  by (simp add: powr_add)

lemma p2_nat: "2 powr real_of_int (int n) = 2 ^ n"
  by (simp add: powr_realpow)

lemma p2_int_less: "2 powr real_of_int a < 2 powr real_of_int b \<longleftrightarrow> a < b"
  by simp


lemma real_bitlen:
  assumes "0 < m"
  shows "2 powr real_of_int (int (bitlen m) - 1) \<le> real m"
    and "real m < 2 powr real_of_int (int (bitlen m))"
proof -
  define L where "L = bitlen m"
  have L: "2 ^ (L - 1) \<le> m" "m < 2 ^ L"
    using bitlen_bounds [OF assms] by (simp_all add: L_def)
  have L1: "1 \<le> L"
    using assms L(2) by (cases L) simp_all
  have "int L - 1 = int (L - 1)"
    using L1 by simp
  then have "2 powr real_of_int (int L - 1) = 2 ^ (L - 1)"
    by (simp only: p2_nat)
  moreover have "real (2 ^ (L - 1)) \<le> real m"
    using L(1) by (simp only: of_nat_le_iff)
  ultimately show "2 powr real_of_int (int (bitlen m) - 1) \<le> real m"
    by (simp add: L_def)
  have e2: "2 powr real_of_int (int L) = real (2 ^ L)"
    by (simp add: powr_realpow)
  have "real m < real (2 ^ L)"
    using L(2) by (simp only: of_nat_less_iff)
  then have "real m < 2 powr real_of_int (int L)"
    by (simp only: e2)
  then show "real m < 2 powr real_of_int (int (bitlen m))"
    by (simp only: L_def)
qed

lemma round_exponent_bounds:
  assumes m: "0 < m"
    and lo: "2 powr real_of_int (- 126) \<le> real m * 2 powr real_of_int e"
    and hi: "real m * 2 powr real_of_int e < 2 powr real_of_int 127"
  shows "- 149 \<le> e + int (bitlen m) - 24" and "e + int (bitlen m) - 24 \<le> 103"
proof -
  define L where "L = int (bitlen m)"
  note rl = real_bitlen [OF m, folded L_def]
  have pe: "0 < 2 powr real_of_int e"
    by simp
  have "real m * 2 powr real_of_int e < 2 powr real_of_int L * 2 powr real_of_int e"
    using rl(2) pe by (rule mult_strict_right_mono)
  with lo have "2 powr real_of_int (- 126) < 2 powr real_of_int (L + e)"
    by (simp only: p2_int_add)
  then have A: "- 126 < L + e"
    by (simp only: p2_int_less)
  have "2 powr real_of_int (L - 1) * 2 powr real_of_int e \<le> real m * 2 powr real_of_int e"
    using rl(1) pe by (intro mult_right_mono) simp_all 
  with hi have "2 powr real_of_int (L - 1 + e) < 2 powr real_of_int 127"
    by (simp only: p2_int_add)
  then have B: "L - 1 + e < 127"
    by (simp only: p2_int_less)
  show "- 149 \<le> e + int (bitlen m) - 24" and "e + int (bitlen m) - 24 \<le> 103"
    using A B by (simp_all add: L_def)
qed

lemma round_significand:
  assumes m: "0 < m" and q: "q = e + int (bitlen m) - 24"
  defines "M \<equiv> (if q \<le> e then m * 2 ^ nat (e - q) else rne m (nat (q - e)))"
  shows "2 ^ 23 \<le> M" and "M \<le> 2 ^ 24"
    and "\<exists>d. \<bar>d\<bar> \<le> 1 / 2 ^ 24
            \<and> real M * 2 powr real_of_int q = real m * 2 powr real_of_int e * (1 + d)"
proof -
  define L where "L = bitlen m"
  have L: "2 ^ (L - 1) \<le> m" "m < 2 ^ L"
    using bitlen_bounds [OF m] by (simp_all add: L_def)
  have L1: "1 \<le> L"
    using m L(2) by (cases L) simp_all
  have q': "q = e + int L - 24"
    by (simp add: q L_def)
  have "2 ^ 23 \<le> M \<and> M \<le> 2 ^ 24
           \<and> (\<exists>d. \<bar>d\<bar> \<le> 1 / 2 ^ 24
                  \<and> real M * 2 powr real_of_int q = real m * 2 powr real_of_int e * (1 + d))"
  proof (cases "q \<le> e")
    case True
    then have L24: "L \<le> 24" and k: "nat (e - q) = 24 - L"
      by (simp_all add: q')
    have Mm: "M = m * 2 ^ (24 - L)"
      using True by (simp add: M_def k)
    have s: "(2 :: nat) ^ (L - 1) * 2 ^ (24 - L) = 2 ^ 23" "(2 :: nat) ^ L * 2 ^ (24 - L) = 2 ^ 24"
      using L1 L24 by (simp_all flip: power_add)
    have "2 ^ (L - 1) * 2 ^ (24 - L) \<le> M"
      unfolding Mm using L(1) by (rule mult_le_mono1)
    moreover have "M < 2 ^ L * 2 ^ (24 - L)"
      unfolding Mm using L(2) by simp
    ultimately have r: "2 ^ 23 \<le> M" "M \<le> 2 ^ 24"
      unfolding s by simp_all
    have "e = q + int (24 - L)"
      using L24 by (simp add: q')
    then have "2 powr real_of_int e = 2 powr real_of_int q * 2 ^ (24 - L)"
      by (simp only: p2_int_add p2_nat)
    then have "real M * 2 powr real_of_int q = real m * 2 powr real_of_int e * (1 + 0)"
      by (simp add: Mm)
    moreover have "\<bar>0 :: real\<bar> \<le> 1 / 2 ^ 24"
      by simp
    ultimately show ?thesis
      using r by blast
  next
    case False
    define k where "k = nat (q - e)"
    have k: "0 < k" "L = 24 + k" "q = e + int k"
      using False by (simp_all add: k_def q')
    have Mm: "M = rne m k"
      using False by (simp add: M_def k_def)
    have mr: "2 ^ 23 * 2 ^ k \<le> m" "m < 2 ^ 24 * 2 ^ k"
      using L by (simp_all add: k(2) power_add)
    have r: "2 ^ 23 \<le> M" "M \<le> 2 ^ 24"
      using rne_range [OF mr] by (simp_all add: Mm)
    have err: "2 * \<bar>int M * 2 ^ k - int m\<bar> \<le> 2 ^ k"
      unfolding Mm by (rule rne_error [OF k(1)])
    define D where "D = real M * 2 ^ k - real m"
    have "real_of_int (2 * \<bar>int M * 2 ^ k - int m\<bar>) \<le> real_of_int (2 ^ k)"
      using err by (simp only: of_int_le_iff)
    then have e2: "2 * \<bar>D\<bar> \<le> 2 ^ k"
      by (simp add: D_def)
    have m23: "2 ^ 23 * 2 ^ k \<le> real m"
    proof -
      have "real (2 ^ 23 * 2 ^ k) \<le> real m"
        using mr(1) by (simp only: of_nat_le_iff)
      then show ?thesis
        by simp
    qed
    have mpos: "0 < real m"
      using m by simp
    define d where "d = D / real m"
    have "2 ^ 24 * \<bar>D\<bar> \<le> 2 ^ 23 * 2 ^ k"
      using e2 by simp
    then have "2 ^ 24 * \<bar>D\<bar> \<le> real m"
      using m23 by simp
    then have "\<bar>D\<bar> / real m \<le> 1 / 2 ^ 24"
      using mpos by (simp add: field_simps)
    then have d: "\<bar>d\<bar> \<le> 1 / 2 ^ 24"
      using mpos by (simp add: d_def)
    have "real m * (1 + d) = real M * 2 ^ k"
      using mpos by (simp add: d_def D_def field_simps)
    moreover have "2 powr real_of_int q = 2 powr real_of_int e * 2 ^ k"
      by (simp only: k(3) p2_int_add p2_nat)
    ultimately have "real M * 2 powr real_of_int q = real m * 2 powr real_of_int e * (1 + d)"
      by (simp add: mult.assoc mult.left_commute)
    then show ?thesis
      using r d by blast
  qed
  then show "2 ^ 23 \<le> M" and "M \<le> 2 ^ 24"
    and "\<exists>d. \<bar>d\<bar> \<le> 1 / 2 ^ 24
            \<and> real M * 2 powr real_of_int q = real m * 2 powr real_of_int e * (1 + d)"
    by simp_all
qed

text \<open>
  Rounding a value in the range of the normal numbers changes it by a factor \<open>1 + d\<close>
  with \<open>\<bar>d\<bar> \<le> 2\<^sup>-\<^sup>2\<^sup>4\<close>.
\<close>

lemma f32_round_val:
  assumes m: "0 < m"
    and lo: "2 powr real_of_int (- 126) \<le> real m * 2 powr real_of_int e"
    and hi: "real m * 2 powr real_of_int e < 2 powr real_of_int 127"
  shows "\<exists>d. \<bar>d\<bar> \<le> 1 / 2 ^ 24
           \<and> f32_val (f32_round s m e)
               = (if s then - 1 else 1) * (real m * 2 powr real_of_int e) * (1 + d)"
    and "is_finite (f32_round s m e)"
    and "f32_sign (f32_round s m e) = s"
proof -
  define q where "q = e + int (bitlen m) - 24"
  have q: "- 149 \<le> q" "q \<le> 103"
    using round_exponent_bounds [OF m lo hi] by (simp_all add: q_def)
  define Q where "Q = nat (q + 149)"
  have Q: "Q + 2 < 255" "int Q - 149 = q"
    using q by (simp_all add: Q_def)
  define M where "M = (if q \<le> e then m * 2 ^ nat (e - q) else rne m (nat (q - e)))"
  note rs = round_significand [OF m q_def, folded M_def]
  have mx: "max (e + int (bitlen m) - 24) (- 149) = q"
    using q(1) by (simp add: q_def max_def)
  have "f32_round s m e = f32_round_q s m e q"
    unfolding f32_round_def mx using m by simp
  then have r: "f32_round s m e = f32_finish s (Q * 2 ^ 23 + M)"
    by (simp only: f32_round_q_def Q_def M_def)
  have "Q * 2 ^ 23 + M < 255 * 2 ^ 23"
    using Q(1) rs(2) by simp
  then have fin: "f32_finish s (Q * 2 ^ 23 + M) = f32_pack s (Q * 2 ^ 23 + M)"
    by (simp add: f32_finish_def)
  note vp = f32_val_pack [OF rs(1) rs(2) Q(1), of s]
  show "is_finite (f32_round s m e)"
    unfolding r fin by (rule vp(2))
  show "f32_sign (f32_round s m e) = s"
    unfolding r fin by (rule vp(3))
  obtain d where d: "\<bar>d\<bar> \<le> 1 / 2 ^ 24"
    "real M * 2 powr real_of_int q = real m * 2 powr real_of_int e * (1 + d)"
    using rs(3) by blast
  have "f32_val (f32_round s m e) = (if s then - 1 else 1) * (real M * 2 powr real_of_int q)"
    unfolding r fin using vp(1) by (simp only: Q(2))
  then have "f32_val (f32_round s m e)
               = (if s then - 1 else 1) * (real m * 2 powr real_of_int e) * (1 + d)"
    by (simp only: d(2) mult.assoc)
  then show "\<exists>d. \<bar>d\<bar> \<le> 1 / 2 ^ 24
           \<and> f32_val (f32_round s m e)
               = (if s then - 1 else 1) * (real m * 2 powr real_of_int e) * (1 + d)"
    using d(1) by blast
qed


lemma f32_val_pack_0: "f32_val (f32_pack s 0) = 0" "is_finite (f32_pack s 0)"
  by (cases s; simp add: f32_val_def f32_eval)+

lemma f32_val_neg: "f32_val (f32_neg a) = - f32_val a"
  by (simp add: f32_val_def f32_neg_sval)

lemma is_finite_neg: "is_finite (f32_neg a) = is_finite a"
  by (simp add: is_finite_def f32_neg_fields)

text \<open>The value of an integer multiple of a power of two, rounded.\<close>

lemma f32_round_int_val:
  assumes t: "t \<noteq> 0"
    and lo: "2 powr real_of_int (- 126) \<le> \<bar>real_of_int t * 2 powr real_of_int e\<bar>"
    and hi: "\<bar>real_of_int t * 2 powr real_of_int e\<bar> < 2 powr real_of_int 127"
  shows "\<exists>d. \<bar>d\<bar> \<le> 1 / 2 ^ 24
           \<and> f32_val (f32_round (t < 0) (nat \<bar>t\<bar>) e)
               = real_of_int t * 2 powr real_of_int e * (1 + d)"
    and "is_finite (f32_round (t < 0) (nat \<bar>t\<bar>) e)"
proof -
  have m: "0 < nat \<bar>t\<bar>"
    using t by simp
  have r: "real (nat \<bar>t\<bar>) = \<bar>real_of_int t\<bar>"
    by simp
  have a: "\<bar>real_of_int t * 2 powr real_of_int e\<bar> = real (nat \<bar>t\<bar>) * 2 powr real_of_int e"
    by (simp only: r abs_mult) simp
  have s: "(if t < 0 then - 1 else 1) * (real (nat \<bar>t\<bar>) * 2 powr real_of_int e)
             = real_of_int t * 2 powr real_of_int e"
    by simp
  note rv = f32_round_val [OF m lo [unfolded a] hi [unfolded a], of "t < 0"]
  show "\<exists>d. \<bar>d\<bar> \<le> 1 / 2 ^ 24
           \<and> f32_val (f32_round (t < 0) (nat \<bar>t\<bar>) e)
               = real_of_int t * 2 powr real_of_int e * (1 + d)"
    using rv(1) by (simp only: s)
  show "is_finite (f32_round (t < 0) (nat \<bar>t\<bar>) e)"
    by (rule rv(2))
qed




lemma f32_fma_val:
  assumes fa: "is_finite a" and fb: "is_finite b" and fc: "is_finite c"
    and lo: "2 powr real_of_int (- 126) \<le> \<bar>f32_val a * f32_val b + f32_val c\<bar>"
    and hi: "\<bar>f32_val a * f32_val b + f32_val c\<bar> < 2 powr real_of_int 127"
  shows "\<exists>d. \<bar>d\<bar> \<le> 1 / 2 ^ 24
           \<and> f32_val (f32_fma a b c) = (f32_val a * f32_val b + f32_val c) * (1 + d)"
    and "is_finite (f32_fma a b c)"
proof -
  define e where "e = min (f32_scale a + f32_scale b) (f32_scale c)"
  define t where "t = (if f32_sign a \<noteq> f32_sign b then - 1 else 1) * int (f32_mant a * f32_mant b)
                        * 2 ^ nat (f32_scale a + f32_scale b - e)
                      + f32_sval c * 2 ^ nat (f32_scale c - e)"
  have sc: "2 powr real_of_int s = 2 ^ nat (s - e) * 2 powr real_of_int e" if "e \<le> s" for s
  proof -
    have "s = int (nat (s - e)) + e"
      using that by simp
    then have "2 powr real_of_int s = 2 powr real_of_int (int (nat (s - e)) + e)"
      by simp
    then show ?thesis
      by (simp only: p2_int_add p2_nat)
  qed
  have le: "e \<le> f32_scale a + f32_scale b" "e \<le> f32_scale c"
    by (simp_all add: e_def)
  have sv: "(if f32_sign a \<noteq> f32_sign b then - 1 else 1) * int (f32_mant a * f32_mant b)
              = f32_sval a * f32_sval b"
    by (simp add: f32_sval_def)
  have ab: "f32_val a * f32_val b
              = real_of_int (f32_sval a * f32_sval b) * 2 powr real_of_int (f32_scale a + f32_scale b)"
    by (simp add: f32_val_def powr_add)
  have sab: "2 powr (real_of_int (f32_scale a) + real_of_int (f32_scale b))
               = 2 ^ nat (f32_scale a + f32_scale b - e) * 2 powr real_of_int e"
    using sc [OF le(1)] by simp
  have p: "f32_val a * f32_val b + f32_val c = real_of_int t * 2 powr real_of_int e"
    unfolding ab t_def sv
    by (simp add: f32_val_def sab sc [OF le(2)] algebra_simps)
  have t0: "t \<noteq> 0"
  proof
    assume "t = 0"
    then have "f32_val a * f32_val b + f32_val c = 0"
      by (simp add: p)
    with lo show False
      by simp
  qed
  have n: "\<not> is_nan a" "\<not> is_nan b" "\<not> is_nan c" "\<not> is_inf a" "\<not> is_inf b" "\<not> is_inf c"
    using fa fb fc by (simp_all add: is_finite_not_nan_inf)
  have m0: "f32_fma a b c = f32_fma_fin a b c e"
    using n by (simp add: f32_fma_def e_def)
  have m1: "f32_fma_fin a b c e = f32_sum ((f32_sign a \<noteq> f32_sign b) \<and> f32_sign c) t e"
    by (simp only: f32_fma_fin_def t_def)
  have m2: "f32_sum s0 t e = f32_round (t < 0) (nat \<bar>t\<bar>) e" for s0
    using t0 by (simp add: f32_sum_def)
  have m: "f32_fma a b c = f32_round (t < 0) (nat \<bar>t\<bar>) e"
    by (simp only: m0 m1 m2)
  note rv = f32_round_int_val [OF t0 lo [unfolded p] hi [unfolded p]]
  show "\<exists>d. \<bar>d\<bar> \<le> 1 / 2 ^ 24
           \<and> f32_val (f32_fma a b c) = (f32_val a * f32_val b + f32_val c) * (1 + d)"
    using rv(1) by (simp only: m p)
  show "is_finite (f32_fma a b c)"
    using rv(2) by (simp only: m)
qed

lemma f32_fnmadd_val:
  assumes fa: "is_finite a" and fb: "is_finite b" and fc: "is_finite c"
    and lo: "2 powr real_of_int (- 126) \<le> \<bar>f32_val c - f32_val a * f32_val b\<bar>"
    and hi: "\<bar>f32_val c - f32_val a * f32_val b\<bar> < 2 powr real_of_int 127"
  shows "\<exists>d. \<bar>d\<bar> \<le> 1 / 2 ^ 24
           \<and> f32_val (f32_fnmadd a b c) = (f32_val c - f32_val a * f32_val b) * (1 + d)"
    and "is_finite (f32_fnmadd a b c)"
proof -
  have n: "\<not> is_nan a" "\<not> is_nan b" "\<not> is_nan c"
    using fa fb fc by (simp_all add: is_finite_not_nan_inf)
  have s: "f32_fnmadd a b c = f32_fma (f32_neg a) b c"
    using n by (simp add: f32_fnmadd_def)
  have fn: "is_finite (f32_neg a)"
    using fa by (simp only: is_finite_neg)
  have v: "f32_val (f32_neg a) * f32_val b + f32_val c = f32_val c - f32_val a * f32_val b"
    by (simp add: f32_val_neg)
  note av = f32_fma_val [OF fn fb fc lo [folded v] hi [folded v]]
  show "\<exists>d. \<bar>d\<bar> \<le> 1 / 2 ^ 24
           \<and> f32_val (f32_fnmadd a b c) = (f32_val c - f32_val a * f32_val b) * (1 + d)"
    using av(1) by (simp only: s v)
  show "is_finite (f32_fnmadd a b c)"
    using av(2) by (simp only: s)
qed













section \<open>One Newton-Raphson update on the reals\<close>






section \<open>The float operations on positive values\<close>

lemma p2_m126: "2 powr real_of_int (- 126) = 1 / 2 ^ 126"
  by (simp add: powr_neg_numeral)

lemma p2_127: "2 powr real_of_int 127 = 2 ^ 127"
  by simp




lemma f32_fnmadd_pos:
  assumes fa: "is_finite a" and fb: "is_finite b" and fc: "is_finite c"
    and lo: "1 / 2 ^ 126 \<le> f32_val c - f32_val a * f32_val b"
    and hi: "f32_val c - f32_val a * f32_val b < 2 ^ 127"
  shows "\<exists>d. \<bar>d\<bar> \<le> 1 / 2 ^ 24
           \<and> f32_val (f32_fnmadd a b c) = (f32_val c - f32_val a * f32_val b) * (1 + d)"
    and "is_finite (f32_fnmadd a b c)"
proof -
  have p: "0 \<le> f32_val c - f32_val a * f32_val b"
    using lo by (smt (verit) divide_nonneg_nonneg zero_le_power)
  have l: "2 powr real_of_int (- 126) \<le> \<bar>f32_val c - f32_val a * f32_val b\<bar>"
    unfolding p2_m126 using lo p by simp
  have h: "\<bar>f32_val c - f32_val a * f32_val b\<bar> < 2 powr real_of_int 127"
    unfolding p2_127 using hi p by simp
  show "\<exists>d. \<bar>d\<bar> \<le> 1 / 2 ^ 24
           \<and> f32_val (f32_fnmadd a b c) = (f32_val c - f32_val a * f32_val b) * (1 + d)"
    by (rule f32_fnmadd_val(1) [OF fa fb fc l h])
  show "is_finite (f32_fnmadd a b c)"
    by (rule f32_fnmadd_val(2) [OF fa fb fc l h])
qed















section \<open>Accuracy of the kernels\<close>

text \<open>The relative error of \<open>y\<close> as an approximation of \<open>1 / sqrt x\<close>, in the
  specification's words: \<open>|y - 1/\<surd>x| / (1/\<surd>x)\<close>.\<close>

definition rel_err :: "f32 \<Rightarrow> f32 \<Rightarrow> real" where
  "rel_err x y = \<bar>f32_val y - 1 / sqrt (f32_val x)\<bar> / (1 / sqrt (f32_val x))"

lemma rel_err_eq:
  assumes "0 < f32_val x"
  shows "rel_err x y = \<bar>f32_val y * sqrt (f32_val x) - 1\<bar>"
proof -
  define r where "r = sqrt (f32_val x)"
  have r: "0 < r"
    using assms by (simp add: r_def)
  have "\<bar>f32_val y - 1 / r\<bar> / (1 / r) = \<bar>f32_val y - 1 / r\<bar> * \<bar>r\<bar>"
    using r by simp
  also have "\<dots> = \<bar>(f32_val y - 1 / r) * r\<bar>"
    by (simp only: abs_mult)
  also have "(f32_val y - 1 / r) * r = f32_val y * r - 1"
    using r by (simp add: field_simps)
  finally show ?thesis
    by (simp only: rel_err_def r_def)
qed



lemma rel_err_ge_above:
  assumes X: "0 < f32_val x" and Y: "0 < f32_val y" and e: "0 \<le> \<epsilon>"
    and lo: "(1 + \<epsilon>)\<^sup>2 \<le> (f32_val y)\<^sup>2 * f32_val x"
  shows "\<epsilon> \<le> rel_err x y"
proof -
  define t where "t = f32_val y * sqrt (f32_val x)"
  have t0: "0 \<le> t"
    using X Y by (simp add: t_def)
  have t2: "t\<^sup>2 = (f32_val y)\<^sup>2 * f32_val x"
    using X by (simp add: t_def power_mult_distrib)
  have "(1 + \<epsilon>)\<^sup>2 \<le> t\<^sup>2"
    using lo by (simp only: t2)
  then have "1 + \<epsilon> \<le> t"
    using t0 by (rule power2_le_imp_le)
  then have "\<epsilon> \<le> \<bar>t - 1\<bar>"
    by simp
  then show ?thesis
    by (simp only: rel_err_eq [OF X] t_def)
qed
















end
